theory Spec2Isabelle
  imports Main
begin

section \<open>JavaScript values\<close>

text \<open>
  The values the client handles are parsed JSON bodies, the results array, the pagination
  cursor and the entries of a parsed query string. They are modelled by one datatype.
  \<open>JUndefined\<close> is the result of reading a missing property, \<open>JNaN\<close> the result of
  arithmetic on a non-number. \<open>JNum\<close> carries an integer: fractional numbers are outside the
  model, and the decimal printing below is JavaScript's for integers below \<open>10^21\<close>.
  An object is the list of its own properties in enumeration order. Strings are byte
  strings (the UTF-8 encoding of the JavaScript string).
\<close>

datatype jsval =
    JUndefined
  | JNull
  | JBool bool
  | JNum int
  | JNaN
  | JStr string
  | JArr "jsval list"
  | JObj "(string \<times> jsval) list"

text \<open>Truthiness, as tested by \<open>if (v)\<close>, \<open>!v\<close> and \<open>v ? a : b\<close>.\<close>

fun truthy :: "jsval \<Rightarrow> bool" where
  "truthy JUndefined = False"
| "truthy JNull = False"
| "truthy (JBool b) = b"
| "truthy (JNum n) = (n \<noteq> 0)"
| "truthy JNaN = False"
| "truthy (JStr s) = (s \<noteq> [])"
| "truthy (JArr xs) = True"
| "truthy (JObj kvs) = True"

text \<open>
  An optional string property of an options object (\<open>path\<close>, \<open>key\<close>, \<open>token\<close>):
  \<open>None\<close> is the absent property. It is truthy when present and not empty.
\<close>

fun truthy_str :: "string option \<Rightarrow> bool" where
  "truthy_str None = False"
| "truthy_str (Some s) = (s \<noteq> [])"

text \<open>The string a template literal inserts for an optional string.\<close>

fun template_str :: "string option \<Rightarrow> string" where
  "template_str None = ''undefined''"
| "template_str (Some s) = s"

subsection \<open>Decimal printing\<close>

definition digit_char :: "nat \<Rightarrow> char" where
  "digit_char n = ''0123456789'' ! (n mod 10)"

fun show_nat :: "nat \<Rightarrow> string" where
  "show_nat n = (if n < 10 then [digit_char n] else show_nat (n div 10) @ [digit_char n])"

declare show_nat.simps [simp del]

definition show_int :: "int \<Rightarrow> string" where
  "show_int i = (if i < 0 then CHR ''-'' # show_nat (nat (- i)) else show_nat (nat i))"

subsection \<open>Array indices\<close>

text \<open>
  A property name is an array index when it is the canonical decimal form of an integer
  from 0 to \<open>2^32 - 2\<close>. Such names are enumerated first, in numeric order, by
  \<open>Object.keys\<close>.
\<close>

definition is_digit :: "char \<Rightarrow> bool" where
  "is_digit c = (c \<in> set ''0123456789'')"

definition digit_val :: "char \<Rightarrow> int" where
  "digit_val c = of_char c - 48"

definition index_val :: "string \<Rightarrow> int" where
  "index_val k = foldl (\<lambda>a c. 10 * a + digit_val c) 0 k"

definition is_index :: "string \<Rightarrow> bool" where
  "is_index k =
     (k \<noteq> [] \<and> list_all is_digit k \<and> (k = ''0'' \<or> hd k \<noteq> CHR ''0'') \<and>
      length k \<le> 10 \<and> index_val k \<le> 4294967294)"

subsection \<open>Property reads, concatenation and addition\<close>

text \<open>
  \<open>v[k]\<close>: reading a property of \<open>undefined\<close> or \<open>null\<close> throws a TypeError
  (\<open>None\<close>); a missing property reads as \<open>undefined\<close>. Inherited members (functions
  such as \<open>toString\<close>) are not JSON values and are outside the model.
\<close>

fun get_prop :: "jsval \<Rightarrow> string \<Rightarrow> jsval option" where
  "get_prop JUndefined k = None"
| "get_prop JNull k = None"
| "get_prop (JObj kvs) k = Some (case map_of kvs k of Some v \<Rightarrow> v | None \<Rightarrow> JUndefined)"
| "get_prop (JArr xs) k =
     Some (if k = ''length'' then JNum (int (length xs))
           else if is_index k \<and> index_val k < int (length xs) then xs ! nat (index_val k)
           else JUndefined)"
| "get_prop (JStr s) k =
     Some (if k = ''length'' then JNum (int (length s))
           else if is_index k \<and> index_val k < int (length s) then JStr [s ! nat (index_val k)]
           else JUndefined)"
| "get_prop v k = Some JUndefined"

text \<open>\<open>results.concat(v)\<close>: an array argument is spread, anything else is appended.\<close>

fun js_concat :: "jsval list \<Rightarrow> jsval \<Rightarrow> jsval list" where
  "js_concat results (JArr xs) = results @ xs"
| "js_concat results v = results @ [v]"

fun join_with :: "char \<Rightarrow> string list \<Rightarrow> string" where
  "join_with c [] = []"
| "join_with c [x] = x"
| "join_with c (x # y # zs) = x @ c # join_with c (y # zs)"

text \<open>\<open>String(v)\<close>; an array prints its elements joined by commas, with \<open>null\<close> and
  \<open>undefined\<close> elements printed empty.\<close>

fun js_to_string :: "jsval \<Rightarrow> string" where
  "js_to_string JUndefined = ''undefined''"
| "js_to_string JNull = ''null''"
| "js_to_string (JBool b) = (if b then ''true'' else ''false'')"
| "js_to_string (JNum n) = show_int n"
| "js_to_string JNaN = ''NaN''"
| "js_to_string (JStr s) = s"
| "js_to_string (JArr xs) =
     join_with (CHR '','')
       (map (\<lambda>x. if x = JUndefined \<or> x = JNull then [] else js_to_string x) xs)"
| "js_to_string (JObj kvs) = ''[object Object]''"

fun to_primitive :: "jsval \<Rightarrow> jsval" where
  "to_primitive (JArr xs) = JStr (js_to_string (JArr xs))"
| "to_primitive (JObj kvs) = JStr (js_to_string (JObj kvs))"
| "to_primitive v = v"

fun is_JStr :: "jsval \<Rightarrow> bool" where
  "is_JStr (JStr s) = True"
| "is_JStr v = False"

text \<open>\<open>Number(v)\<close> of a primitive that is not a string: \<open>None\<close> is NaN.\<close>

fun to_number :: "jsval \<Rightarrow> int option" where
  "to_number JNull = Some 0"
| "to_number (JBool b) = Some (if b then 1 else 0)"
| "to_number (JNum n) = Some n"
| "to_number v = None"

text \<open>The operator \<open>+\<close>, as \<open>offset += body.limit\<close> uses it.\<close>

definition js_add :: "jsval \<Rightarrow> jsval \<Rightarrow> jsval" where
  "js_add a b =
     (let pa = to_primitive a; pb = to_primitive b in
      if is_JStr pa \<or> is_JStr pb then JStr (js_to_string pa @ js_to_string pb)
      else (case (to_number pa, to_number pb) of
              (Some x, Some y) \<Rightarrow> JNum (x + y)
            | _ \<Rightarrow> JNaN))"

section \<open>The query string library\<close>

text \<open>
  \<open>updateUrl\<close> calls Node's \<open>querystring.parse\<close>, \<open>querystring.stringify\<close>,
  \<open>url.parse\<close> and \<open>url.format\<close>. They are modelled as Node implements them, on byte
  strings: a percent escape denotes one byte, and a character outside ASCII is the bytes
  of its UTF-8 encoding. The model is Node's on the queries whose decoded bytes are valid
  UTF-8 (Node replaces a byte sequence that is not by U+FFFD).
\<close>

definition is_hex :: "char \<Rightarrow> bool" where
  "is_hex c = (c \<in> set ''0123456789abcdefABCDEF'')"

definition hex_val :: "char \<Rightarrow> nat" where
  "hex_val c =
     (if c \<in> set ''0123456789'' then of_char c - 48
      else if c \<in> set ''abcdef'' then of_char c - 87
      else of_char c - 55)"

definition hex_char :: "nat \<Rightarrow> char" where
  "hex_char n = ''0123456789ABCDEF'' ! (n mod 16)"

text \<open>The characters \<open>querystring.escape\<close> leaves as they are.\<close>

definition unreserved :: "char \<Rightarrow> bool" where
  "unreserved c =
     (c \<in> set ''ABCDEFGHIJKLMNOPQRSTUVWXYZabcdefghijklmnopqrstuvwxyz0123456789-_.!~*()''
      \<or> c = CHR 0x27)"

definition escape_char :: "char \<Rightarrow> string" where
  "escape_char c =
     (if unreserved c then [c]
      else [CHR ''%'', hex_char (of_char c div 16), hex_char (of_char c mod 16)])"

definition qs_escape :: "string \<Rightarrow> string" where
  "qs_escape s = concat (map escape_char s)"

text \<open>
  Decoding of a key or a value inside \<open>querystring.parse\<close>: a plus sign is a space, a
  percent sign followed by two hexadecimal digits is the byte they denote, and any other
  percent sign stays.
\<close>

fun qs_unescape :: "string \<Rightarrow> string" where
  "qs_unescape [] = []"
| "qs_unescape (c # cs) =
     (if c = CHR ''+'' then CHR '' '' # qs_unescape cs
      else if c = CHR ''%'' then
        (case cs of
           h # l # rest \<Rightarrow>
             if is_hex h \<and> is_hex l then char_of (16 * hex_val h + hex_val l) # qs_unescape rest
             else c # qs_unescape cs
         | _ \<Rightarrow> c # qs_unescape cs)
      else c # qs_unescape cs)"

text \<open>\<open>stringifyPrimitive\<close>: strings, finite numbers and booleans print, all else is empty.\<close>

fun stringifyPrimitive :: "jsval \<Rightarrow> string" where
  "stringifyPrimitive (JStr s) = s"
| "stringifyPrimitive (JNum n) = show_int n"
| "stringifyPrimitive (JBool b) = (if b then ''true'' else ''false'')"
| "stringifyPrimitive v = []"

text \<open>
  The parsed query is an object without prototype: the list of its properties in the
  order they were created. Assigning an existing property keeps its place.
\<close>

type_synonym qsobj = "(string \<times> jsval) list"

fun set_prop :: "(string \<times> 'v) list \<Rightarrow> string \<Rightarrow> 'v \<Rightarrow> (string \<times> 'v) list" where
  "set_prop [] k v = [(k, v)]"
| "set_prop ((k', v') # ps) k v =
     (if k' = k then (k, v) # ps else (k', v') # set_prop ps k v)"

definition hasOwnProperty :: "(string \<times> 'v) list \<Rightarrow> string \<Rightarrow> bool" where
  "hasOwnProperty obj k = (map_of obj k \<noteq> None)"

text \<open>\<open>Object.keys\<close>: array indices in ascending order, then the other names in creation order.\<close>

definition own_keys :: "(string \<times> 'v) list \<Rightarrow> string list" where
  "own_keys obj =
     (let ks = map fst obj in
      sort_key index_val (filter is_index ks) @ filter (\<lambda>k. \<not> is_index k) ks)"

definition qs_field :: "string \<Rightarrow> jsval \<Rightarrow> string" where
  "qs_field k v = qs_escape k @ ''='' @ qs_escape (stringifyPrimitive v)"

fun qs_fields :: "string \<Rightarrow> jsval \<Rightarrow> string list" where
  "qs_fields k (JArr vs) = map (qs_field k) vs"
| "qs_fields k v = [qs_field k v]"

definition qs_stringify :: "qsobj \<Rightarrow> string" where
  "qs_stringify obj =
     join_with (CHR ''&'')
       (concat (map (\<lambda>k. case map_of obj k of Some v \<Rightarrow> qs_fields k v | None \<Rightarrow> [])
                    (own_keys obj)))"

fun addKeyValue :: "qsobj \<Rightarrow> string \<Rightarrow> string \<Rightarrow> qsobj" where
  "addKeyValue obj key val =
     (case map_of obj key of
        None \<Rightarrow> set_prop obj key (JStr val)
      | Some (JArr xs) \<Rightarrow> set_prop obj key (JArr (xs @ [JStr val]))
      | Some cur \<Rightarrow> set_prop obj key (JArr [cur, JStr val]))"

fun split_on :: "char \<Rightarrow> string \<Rightarrow> string list" where
  "split_on c [] = [[]]"
| "split_on c (x # xs) =
     (if x = c then [] # split_on c xs
      else (case split_on c xs of
              [] \<Rightarrow> [[x]]
            | y # ys \<Rightarrow> (x # y) # ys))"

text \<open>
  One segment between ampersands: the key is what stands before the first equals sign,
  the value what stands after it (empty when there is none).
\<close>

definition segment_key :: "string \<Rightarrow> string" where
  "segment_key seg = qs_unescape (takeWhile (\<lambda>c. c \<noteq> CHR ''='') seg)"

definition segment_value :: "string \<Rightarrow> string" where
  "segment_value seg = qs_unescape (drop 1 (dropWhile (\<lambda>c. c \<noteq> CHR ''='') seg))"

definition maxKeys :: nat where
  "maxKeys = 1000"

text \<open>
  \<open>querystring.parse\<close> with its defaults: the separators are \<open>&\<close> and \<open>=\<close>, empty
  segments are skipped, and parsing stops after \<open>maxKeys\<close> separators. The argument is
  \<open>None\<close> when the URL has no query (\<open>url.parse\<close> gives \<open>null\<close>).
\<close>

definition qs_parse :: "string option \<Rightarrow> qsobj" where
  "qs_parse query =
     (case query of
        None \<Rightarrow> []
      | Some qs \<Rightarrow>
          if qs = [] then []
          else foldl (\<lambda>obj seg. addKeyValue obj (segment_key seg) (segment_value seg)) []
                 (filter (\<lambda>seg. seg \<noteq> []) (take maxKeys (split_on (CHR ''&'') qs))))"

subsection \<open>URLs\<close>

text \<open>
  \<open>url.parse\<close> is modelled on the addresses the client builds, a base URL in normal form
  followed by the caller's path: the fragment starts at the first \<open>#\<close>, the search at the
  first \<open>?\<close> before it, and what stands before both (scheme, host and path) is kept as it
  is. Node's trimming of blanks around the address and its rewriting of that prefix (case
  of scheme and host, a slash for an empty path, escaping of blanks and delimiters) are
  not modelled: the model is Node's on addresses whose prefix \<open>url.format\<close> prints as
  it stands.
\<close>

record urlObject =
  u_prefix :: string
  u_search :: "string option"
  u_query :: "string option"
  u_hash :: "string option"

definition url_parse :: "string \<Rightarrow> urlObject" where
  "url_parse address =
     (let front = takeWhile (\<lambda>c. c \<noteq> CHR ''#'') address;
          hash = dropWhile (\<lambda>c. c \<noteq> CHR ''#'') address;
          search = dropWhile (\<lambda>c. c \<noteq> CHR ''?'') front
      in \<lparr> u_prefix = takeWhile (\<lambda>c. c \<noteq> CHR ''?'') front,
           u_search = (if search = [] then None else Some search),
           u_query = (if search = [] then None else Some (tl search)),
           u_hash = (if hash = [] then None else Some hash) \<rparr>)"

text \<open>\<open>search.replace('#', '%23')\<close>: the first occurrence only.\<close>

fun replace_hash :: "string \<Rightarrow> string" where
  "replace_hash [] = []"
| "replace_hash (c # cs) = (if c = CHR ''#'' then ''%23'' @ cs else c # replace_hash cs)"

definition url_format :: "urlObject \<Rightarrow> string" where
  "url_format u =
     (let from_query = (case u_query u of
                          Some q \<Rightarrow> (if q = [] then [] else CHR ''?'' # q)
                        | None \<Rightarrow> []);
          search = (case u_search u of
                      Some s \<Rightarrow> (if s = [] then from_query else s)
                    | None \<Rightarrow> from_query);
          search = (if search \<noteq> [] \<and> hd search \<noteq> CHR ''?'' then CHR ''?'' # search else search);
          hash = (case u_hash u of Some h \<Rightarrow> h | None \<Rightarrow> []);
          hash = (if hash \<noteq> [] \<and> hd hash \<noteq> CHR ''#'' then CHR ''#'' # hash else hash)
      in u_prefix u @ replace_hash search @ hash)"

section \<open>updateUrl\<close>

definition updateUrl :: "string \<Rightarrow> jsval \<Rightarrow> string" where
  "updateUrl address offset =
     (let parsed = url_parse address;
          query = u_query parsed;
          qs = qs_parse query;
          qs = (if \<not> hasOwnProperty qs ''offset'' then set_prop qs ''offset'' offset else qs);
          qs = (if \<not> hasOwnProperty qs ''total'' then set_prop qs ''total'' (JBool True) else qs);
          qs = (if \<not> hasOwnProperty qs ''limit'' then set_prop qs ''limit'' (JNum 100) else qs);
          parsed = parsed \<lparr> u_search := Some (CHR ''?'' # qs_stringify qs) \<rparr>;
          formatted = url_format parsed
      in formatted)"

section \<open>The client\<close>

text \<open>
  The client is the class of \<open>lib/pagerduty.js\<close> built on axios, the version the tests of
  \<open>test/pagerduty.test.js\<close> run against: a default token and a default timeout, and the
  four operations \<open>get\<close>, \<open>post\<close>, \<open>put\<close> and \<open>delete\<close>. The earlier versions of
  the file, built on the request library, have the same precondition checks, the same
  pagination loop and the same merge of headers; they take the default token from the
  client or from the environment variable \<open>CustomPagerDutyToken\<close>, and they print
  \<open>res.body.error.errors[0]\<close> instead of the whole body in the message of a status error.
\<close>

subsection \<open>JSON.stringify\<close>

definition json_escape_char :: "char \<Rightarrow> string" where
  "json_escape_char c =
     (if c = CHR 0x22 then [CHR 0x5C, CHR 0x22]
      else if c = CHR 0x5C then [CHR 0x5C, CHR 0x5C]
      else if c = CHR 0x08 then [CHR 0x5C, CHR ''b'']
      else if c = CHR 0x0C then [CHR 0x5C, CHR ''f'']
      else if c = CHR 0x0A then [CHR 0x5C, CHR ''n'']
      else if c = CHR 0x0D then [CHR 0x5C, CHR ''r'']
      else if c = CHR 0x09 then [CHR 0x5C, CHR ''t'']
      else if (of_char c :: nat) < 32 then
        [CHR 0x5C, CHR ''u'', CHR ''0'', CHR ''0'',
         ''0123456789abcdef'' ! (of_char c div 16), ''0123456789abcdef'' ! (of_char c mod 16)]
      else [c])"

definition json_quote :: "string \<Rightarrow> string" where
  "json_quote s = CHR 0x22 # concat (map json_escape_char s) @ [CHR 0x22]"

text \<open>
  The text of a value inside a document: \<open>undefined\<close> and NaN print as \<open>null\<close> in an
  array, and a property whose value is \<open>undefined\<close> is left out of an object.
\<close>

fun json_text :: "jsval \<Rightarrow> string" where
  "json_text JUndefined = ''null''"
| "json_text JNull = ''null''"
| "json_text (JBool b) = (if b then ''true'' else ''false'')"
| "json_text (JNum n) = show_int n"
| "json_text JNaN = ''null''"
| "json_text (JStr s) = json_quote s"
| "json_text (JArr xs) = ''['' @ join_with (CHR '','') (map json_text xs) @ '']''"
| "json_text (JObj kvs) =
     ''{'' @ join_with (CHR '','')
              (map (\<lambda>kv. json_quote (fst kv) @ '':'' @ json_text (snd kv))
                   (filter (\<lambda>kv. snd kv \<noteq> JUndefined) kvs)) @ ''}''"

text \<open>\<open>${JSON.stringify(v)}\<close> in a template literal.\<close>

definition JSON_stringify :: "jsval \<Rightarrow> string" where
  "JSON_stringify v = (if v = JUndefined then ''undefined'' else json_text v)"

subsection \<open>Client, options, requests and responses\<close>

record ctor_options =
  pagerDutyToken :: "string option"
  ctor_timeout :: "nat option"

record pagerduty =
  pd_token :: "string option"
  pd_timeout :: nat

definition PagerDuty :: "ctor_options \<Rightarrow> pagerduty" where
  "PagerDuty options =
     \<lparr> pd_token = pagerDutyToken options,
       pd_timeout = (case ctor_timeout options of Some t \<Rightarrow> t | None \<Rightarrow> 10000) \<rparr>"

text \<open>
  The options of one call. \<open>o_body\<close> is \<open>JUndefined\<close> and \<open>o_headers\<close> is \<open>None\<close>
  when the caller gives none; \<open>o_timeout\<close> is \<open>None\<close> when the options have no own
  \<open>timeout\<close> property.
\<close>

record options =
  o_path :: "string option"
  o_key :: "string option"
  o_token :: "string option"
  o_timeout :: "nat option"
  o_body :: jsval
  o_headers :: "(string \<times> string) list option"

datatype http_method = GET | POST | PUT | DELETE

record request =
  r_method :: http_method
  r_url :: string
  r_headers :: "(string \<times> string) list"
  r_data :: "jsval option"
  r_timeout :: "nat option"

text \<open>
  What one round trip of the HTTP library ends with: an error without a response
  (connection failure, timeout), or a response with its status and parsed body.
\<close>

datatype 'e response = NetworkError 'e | Response nat jsval

text \<open>
  The first argument of the callback: an \<open>Error\<close> object with its message, a bare string,
  the error of the HTTP library as it came, or the \<open>TypeError\<close> thrown by a property read
  on \<open>null\<close> or \<open>undefined\<close>.
\<close>

datatype 'e js_error =
    ErrorObject string
  | ErrorString string
  | TransportError 'e
  | TypeError

text \<open>
  The callback is called with an error (\<open>Inl\<close>) or with \<open>null\<close> and a result (\<open>Inr\<close>).
  \<open>Pending\<close>: the responses given ran out while a request was waiting.
\<close>

datatype 'e outcome = Pending | Callback "'e js_error + jsval"

definition baseUrl :: "bool \<Rightarrow> string" where
  "baseUrl TEST = (if TEST then ''http://localhost:3333/'' else ''https://api.pagerduty.com/'')"

definition default_headers :: "options \<Rightarrow> (string \<times> string) list" where
  "default_headers options =
     [(''Accept'', ''application/vnd.pagerduty+json;version=2''),
      (''Authorization'', ''Token token='' @ template_str (o_token options))]"

text \<open>\<open>Object.assign(target, source)\<close>; an \<open>undefined\<close> source changes nothing.\<close>

definition Object_assign ::
  "(string \<times> string) list \<Rightarrow> (string \<times> string) list option \<Rightarrow> (string \<times> string) list" where
  "Object_assign target source =
     (case source of
        None \<Rightarrow> target
      | Some kvs \<Rightarrow> foldl (\<lambda>t kv. set_prop t (fst kv) (snd kv)) target kvs)"

definition http_error :: "nat \<Rightarrow> jsval \<Rightarrow> 'e js_error" where
  "http_error status data =
     ErrorString (''HTTP status code '' @ show_nat status @ '': '' @ JSON_stringify data)"

text \<open>axios resolves the promise for a status from 200 to 299 and rejects it otherwise.\<close>

definition validateStatus :: "nat \<Rightarrow> bool" where
  "validateStatus status = (200 \<le> status \<and> status < 300)"

subsection \<open>get\<close>

definition get_request :: "bool \<Rightarrow> options \<Rightarrow> jsval \<Rightarrow> request" where
  "get_request TEST options offset =
     \<lparr> r_method = GET,
       r_url = updateUrl (baseUrl TEST @ template_str (o_path options)) offset,
       r_headers = default_headers options,
       r_data = None,
       r_timeout = o_timeout options \<rparr>"

text \<open>
  \<open>query(offset)\<close> with the results collected so far, run against the responses the
  server gives in order. It returns the calls of the HTTP library it made, each with the
  cursor it was made for, and what the callback received.
\<close>

fun query ::
  "bool \<Rightarrow> options \<Rightarrow> jsval \<Rightarrow> jsval list \<Rightarrow> 'e response list \<Rightarrow>
   (jsval \<times> request) list \<times> 'e outcome" where
  "query TEST options offset results [] = ([(offset, get_request TEST options offset)], Pending)"
| "query TEST options offset results (r # rs) =
     (let call = (offset, get_request TEST options offset) in
      case r of
        NetworkError err \<Rightarrow> ([call], Callback (Inl (TransportError err)))
      | Response status body \<Rightarrow>
          if \<not> validateStatus status then ([call], Callback (Inl (http_error status body)))
          else if status \<noteq> 200 then ([call], Callback (Inl (http_error status body)))
          else
            (case (if truthy_str (o_key options)
                   then map_option (js_concat results) (get_prop body (template_str (o_key options)))
                   else Some (js_concat results body)) of
               None \<Rightarrow> ([call], Callback (Inl TypeError))
             | Some results' \<Rightarrow>
                 (case get_prop body ''more'' of
                    None \<Rightarrow> ([call], Callback (Inl TypeError))
                  | Some more_flag \<Rightarrow>
                      if truthy more_flag then
                        (case get_prop body ''limit'' of
                           None \<Rightarrow> ([call], Callback (Inl TypeError))
                         | Some limit \<Rightarrow>
                             (let rest = query TEST options (js_add offset limit) results' rs
                              in (call # fst rest, snd rest)))
                      else ([call], Callback (Inr (JArr results'))))))"

definition resolve_options :: "pagerduty \<Rightarrow> options \<Rightarrow> options" where
  "resolve_options this options =
     (let options = (if \<not> truthy_str (o_token options)
                     then options \<lparr> o_token := pd_token this \<rparr> else options);
          options = (if o_timeout options = None
                     then options \<lparr> o_timeout := Some (pd_timeout this) \<rparr> else options)
      in options)"

definition get ::
  "bool \<Rightarrow> pagerduty \<Rightarrow> options \<Rightarrow> 'e response list \<Rightarrow>
   (jsval \<times> request) list \<times> 'e outcome" where
  "get TEST this options responses =
     (if \<not> truthy_str (o_path options) then
        ([], Callback (Inl (ErrorObject ''Must provide options.path'')))
      else if \<not> truthy_str (o_token options) \<and> \<not> truthy_str (pd_token this) then
        ([], Callback (Inl (ErrorObject ''Must provide PagerDuty access token'')))
      else query TEST (resolve_options this options) (JNum 0) [] responses)"

subsection \<open>post, put and delete\<close>

text \<open>
  One request and the handling of its response, shared by the three operations, which
  differ in the method, the status they expect and what they send.
\<close>

definition single_call ::
  "request \<Rightarrow> nat \<Rightarrow> 'e response list \<Rightarrow> request list \<times> 'e outcome" where
  "single_call req expected responses =
     (case responses of
        [] \<Rightarrow> ([req], Pending)
      | NetworkError err # rs \<Rightarrow> ([req], Callback (Inl (TransportError err)))
      | Response status data # rs \<Rightarrow>
          if \<not> validateStatus status then ([req], Callback (Inl (http_error status data)))
          else if status \<noteq> expected then ([req], Callback (Inl (http_error status data)))
          else ([req], Callback (Inr (JObj [(''body'', data)]))))"

definition post ::
  "bool \<Rightarrow> pagerduty \<Rightarrow> options \<Rightarrow> 'e response list \<Rightarrow> request list \<times> 'e outcome" where
  "post TEST this options responses =
     (if \<not> truthy_str (o_path options) then
        ([], Callback (Inl (ErrorObject ''Must provide options.path'')))
      else if \<not> truthy (o_body options) then
        ([], Callback (Inl (ErrorObject ''Must provide options.body'')))
      else if \<not> truthy_str (o_token options) \<and> \<not> truthy_str (pd_token this) then
        ([], Callback (Inl (ErrorObject ''Must provide PagerDuty access token'')))
      else
        (let options = resolve_options this options;
             headers = Object_assign (default_headers options) (o_headers options)
         in single_call
              \<lparr> r_method = POST,
                r_url = baseUrl TEST @ template_str (o_path options),
                r_headers = headers,
                r_data = Some (o_body options),
                r_timeout = o_timeout options \<rparr>
              201 responses))"

definition put ::
  "bool \<Rightarrow> pagerduty \<Rightarrow> options \<Rightarrow> 'e response list \<Rightarrow> request list \<times> 'e outcome" where
  "put TEST this options responses =
     (if \<not> truthy_str (o_path options) then
        ([], Callback (Inl (ErrorObject ''Must provide options.path'')))
      else if \<not> truthy (o_body options) then
        ([], Callback (Inl (ErrorObject ''Must provide options.body'')))
      else if \<not> truthy_str (o_token options) \<and> \<not> truthy_str (pd_token this) then
        ([], Callback (Inl (ErrorObject ''Must provide PagerDuty access token'')))
      else
        (let options = resolve_options this options;
             headers = Object_assign (default_headers options) (o_headers options)
         in single_call
              \<lparr> r_method = PUT,
                r_url = baseUrl TEST @ template_str (o_path options),
                r_headers = headers,
                r_data = Some (o_body options),
                r_timeout = o_timeout options \<rparr>
              200 responses))"

definition delete ::
  "bool \<Rightarrow> pagerduty \<Rightarrow> options \<Rightarrow> 'e response list \<Rightarrow> request list \<times> 'e outcome" where
  "delete TEST this options responses =
     (if \<not> truthy_str (o_path options) then
        ([], Callback (Inl (ErrorObject ''Must provide options.path'')))
      else if \<not> truthy_str (o_token options) \<and> \<not> truthy_str (pd_token this) then
        ([], Callback (Inl (ErrorObject ''Must provide PagerDuty access token'')))
      else
        (let options = resolve_options this options
         in single_call
              \<lparr> r_method = DELETE,
                r_url = baseUrl TEST @ template_str (o_path options),
                r_headers = default_headers options,
                r_data = None,
                r_timeout = o_timeout options \<rparr>
              204 responses))"

section \<open>Notions of the specification\<close>

text \<open>
  A page that reports \<open>more: true\<close> together with an integer \<open>limit\<close>, and a page that
  reports \<open>more: false\<close>.
\<close>

fun is_more_page :: "jsval \<Rightarrow> bool" where
  "is_more_page (JObj kvs) =
     (map_of kvs ''more'' = Some (JBool True) \<and>
      (case map_of kvs ''limit'' of Some (JNum n) \<Rightarrow> True | _ \<Rightarrow> False))"
| "is_more_page v = False"

fun is_last_page :: "jsval \<Rightarrow> bool" where
  "is_last_page (JObj kvs) = (map_of kvs ''more'' = Some (JBool False))"
| "is_last_page v = False"

fun limit_of :: "jsval \<Rightarrow> int" where
  "limit_of (JObj kvs) = (case map_of kvs ''limit'' of Some (JNum n) \<Rightarrow> n | _ \<Rightarrow> 0)"
| "limit_of v = 0"

text \<open>
  The value one page contributes, in the words of the specification: with a key, the
  elements of \<open>body[key]\<close> when that is a sequence and \<open>body[key]\<close> itself otherwise;
  without a key, the whole body as one element. A key counts as given when it is a
  string that is not empty, the test \<open>options.key ? ... : ...\<close> of the source.
\<close>

definition spec_page_value :: "string option \<Rightarrow> jsval \<Rightarrow> jsval list" where
  "spec_page_value k body =
     (if truthy_str k then
        (case get_prop body (template_str k) of
           Some (JArr xs) \<Rightarrow> xs
         | Some v \<Rightarrow> [v]
         | None \<Rightarrow> [])
      else [body])"

text \<open>The cursor values of a call whose pages report the given limits: each the sum of
  the limits before it.\<close>

fun cursors_from :: "int \<Rightarrow> int list \<Rightarrow> int list" where
  "cursors_from c [] = [c]"
| "cursors_from c (l # ls) = c # cursors_from (c + l) ls"

text \<open>A page after which the loop goes on: reading \<open>body.more\<close> succeeds and is truthy.\<close>

definition continues :: "jsval \<Rightarrow> bool" where
  "continues body = (case get_prop body ''more'' of Some m \<Rightarrow> truthy m | None \<Rightarrow> False)"

fun is_config_error :: "'e outcome \<Rightarrow> bool" where
  "is_config_error (Callback (Inl (ErrorObject msg))) = True"
| "is_config_error out = False"

text \<open>The options are acceptable to \<open>get\<close> and \<open>delete\<close>: a path and a token can be resolved.\<close>

definition ready :: "pagerduty \<Rightarrow> options \<Rightarrow> bool" where
  "ready this options =
     (truthy_str (o_path options) \<and> (truthy_str (o_token options) \<or> truthy_str (pd_token this)))"

subsection \<open>Query strings as lists of pairs\<close>

text \<open>
  The pairs of decoded key and value that \<open>querystring.parse\<close> reads from a query, in the
  order of the query: those of the segments before the first \<open>maxKeys\<close> separators.
\<close>

definition query_pairs :: "string option \<Rightarrow> (string \<times> string) list" where
  "query_pairs q =
     (case q of
        None \<Rightarrow> []
      | Some qs \<Rightarrow>
          map (\<lambda>seg. (segment_key seg, segment_value seg))
            (filter (\<lambda>seg. seg \<noteq> []) (take maxKeys (split_on (CHR ''&'') qs))))"

text \<open>The object \<open>querystring.parse\<close> builds from the pairs it reads.\<close>

definition parse_pairs :: "(string \<times> string) list \<Rightarrow> qsobj" where
  "parse_pairs ps = foldl (\<lambda>obj p. addKeyValue obj (fst p) (snd p)) [] ps"

text \<open>The parts of an address: what stands before the query, the query, the fragment.\<close>

definition url_base :: "string \<Rightarrow> string" where
  "url_base address = u_prefix (url_parse address)"

definition url_query :: "string \<Rightarrow> string option" where
  "url_query address = u_query (url_parse address)"

definition url_fragment :: "string \<Rightarrow> string" where
  "url_fragment address = (case u_hash (url_parse address) of Some h \<Rightarrow> h | None \<Rightarrow> [])"

text \<open>The field \<open>key=value\<close> that \<open>querystring.stringify\<close> prints for a pair.\<close>

definition pair_field :: "string \<times> string \<Rightarrow> string" where
  "pair_field p = qs_escape (fst p) @ ''='' @ qs_escape (snd p)"

text \<open>The values a property prints: each element of an array, or the value itself.\<close>

fun prop_values :: "jsval \<Rightarrow> string list" where
  "prop_values (JArr vs) = map stringifyPrimitive vs"
| "prop_values v = [stringifyPrimitive v]"

text \<open>The pairs \<open>querystring.stringify\<close> prints for an object, in the order it prints them.\<close>

definition qs_pairs :: "qsobj \<Rightarrow> (string \<times> string) list" where
  "qs_pairs obj =
     concat (map (\<lambda>k. case map_of obj k of
                          Some v \<Rightarrow> map (Pair k) (prop_values v)
                        | None \<Rightarrow> [])
                 (own_keys obj))"

text \<open>
  The order of \<open>Object.keys\<close> on a list of names in creation order, and the names of a
  list of pairs in the order of their first occurrence.
\<close>

definition key_order :: "string list \<Rightarrow> string list" where
  "key_order ks = sort_key index_val (filter is_index ks) @ filter (\<lambda>k. \<not> is_index k) ks"

definition first_keys :: "(string \<times> 'v) list \<Rightarrow> string list" where
  "first_keys ps = rev (remdups (rev (map fst ps)))"

text \<open>
  The pairs of a query as the parsed object enumerates them: the keys that are array
  indices first, in ascending order, then the other keys in the order of their first
  occurrence; the values of one key together, in their order.
\<close>

definition grouped :: "(string \<times> string) list \<Rightarrow> (string \<times> string) list" where
  "grouped ps = concat (map (\<lambda>k. filter (\<lambda>p. fst p = k) ps) (key_order (first_keys ps)))"

text \<open>The pairs added for the keys among \<open>offset\<close>, \<open>total\<close>, \<open>limit\<close> that a query lacks.\<close>

definition default_pairs :: "(string \<times> string) list \<Rightarrow> jsval \<Rightarrow> (string \<times> string) list" where
  "default_pairs ps offset =
     (if ''offset'' \<in> fst ` set ps then [] else map (Pair ''offset'') (prop_values offset)) @
     (if ''total'' \<in> fst ` set ps then [] else [(''total'', ''true'')]) @
     (if ''limit'' \<in> fst ` set ps then [] else [(''limit'', ''100'')])"

fun is_JArr :: "jsval \<Rightarrow> bool" where
  "is_JArr (JArr vs) = True"
| "is_JArr v = False"

text \<open>The headers the caller supplies: none when the options have no \<open>headers\<close>.\<close>

definition caller_headers :: "options \<Rightarrow> (string \<times> string) list" where
  "caller_headers options = (case o_headers options of Some hs \<Rightarrow> hs | None \<Rightarrow> [])"

text \<open>The options are acceptable to \<open>post\<close> and \<open>put\<close>: they also need a body.\<close>

definition ready_with_body :: "pagerduty \<Rightarrow> options \<Rightarrow> bool" where
  "ready_with_body this options = (ready this options \<and> truthy (o_body options))"

section \<open>Pagination\<close>

declare query.simps [simp del]

lemma js_concat_conv: "js_concat rs v = rs @ (case v of JArr xs \<Rightarrow> xs | _ \<Rightarrow> [v])"
  by (cases v) simp_all

lemma is_more_pageD:
  assumes "is_more_page body"
  obtains kvs n where "body = JObj kvs" "map_of kvs ''more'' = Some (JBool True)"
    "map_of kvs ''limit'' = Some (JNum n)"
  using assms by (cases body) (auto split: option.splits jsval.splits)

lemma is_last_pageD:
  assumes "is_last_page body"
  obtains kvs where "body = JObj kvs" "map_of kvs ''more'' = Some (JBool False)"
  using assms by (cases body) auto

lemma page_step_obj:
  "(if truthy_str k then map_option (js_concat rs) (get_prop (JObj kvs) (template_str k))
    else Some (js_concat rs (JObj kvs))) = Some (rs @ spec_page_value k (JObj kvs))"
  by (auto simp: spec_page_value_def js_concat_conv split: jsval.splits option.splits)

lemma js_add_num: "js_add (JNum a) (JNum b) = JNum (a + b)"
  by (simp add: js_add_def)

lemma query_last:
  assumes "is_last_page lst"
  shows "query TEST options offset rs (Response 200 lst # extra) =
         ([(offset, get_request TEST options offset)],
          Callback (Inr (JArr (rs @ spec_page_value (o_key options) lst))))"
proof -
  from assms obtain kvs where b: "lst = JObj kvs" and m: "map_of kvs ''more'' = Some (JBool False)"
    by (rule is_last_pageD)
  show ?thesis
    unfolding b
    by (simp add: query.simps validateStatus_def page_step_obj del: get_prop.simps) (simp add: m)
qed

lemma query_more:
  assumes "is_more_page body"
  shows "query TEST options (JNum c) rs (Response 200 body # rest) =
         ((JNum c, get_request TEST options (JNum c)) #
            fst (query TEST options (JNum (c + limit_of body))
                   (rs @ spec_page_value (o_key options) body) rest),
          snd (query TEST options (JNum (c + limit_of body))
                   (rs @ spec_page_value (o_key options) body) rest))"
proof -
  from assms obtain kvs n where b: "body = JObj kvs"
    and m: "map_of kvs ''more'' = Some (JBool True)" and l: "map_of kvs ''limit'' = Some (JNum n)"
    by (rule is_more_pageD)
  show ?thesis
    unfolding b
    by (simp add: query.simps validateStatus_def page_step_obj Let_def js_add_num
          del: get_prop.simps)
       (simp add: m l js_add_num Let_def)
qed

text \<open>
  The whole run over pages that report more and a last page that does not: one call per
  page, at the cursors the limits give, and the pages' values in order.
\<close>

lemma query_pages:
  assumes "list_all is_more_page bodies" "is_last_page lst"
  shows "query TEST options (JNum c) rs (map (Response 200) (bodies @ [lst]) @ extra) =
         (map (\<lambda>c. (JNum c, get_request TEST options (JNum c)))
              (cursors_from c (map limit_of bodies)),
          Callback (Inr (JArr (rs @ concat (map (spec_page_value (o_key options)) (bodies @ [lst]))))))"
  using assms
proof (induction bodies arbitrary: c rs)
  case Nil
  then show ?case by (simp add: query_last)
next
  case (Cons b bs)
  from Cons.prems have b: "is_more_page b" and bs: "list_all is_more_page bs" by simp_all
  have "query TEST options (JNum c) rs (map (Response 200) ((b # bs) @ [lst]) @ extra)
      = query TEST options (JNum c) rs (Response 200 b # (map (Response 200) (bs @ [lst]) @ extra))"
    by simp
  also have "\<dots> = ((JNum c, get_request TEST options (JNum c)) #
            fst (query TEST options (JNum (c + limit_of b))
                   (rs @ spec_page_value (o_key options) b) (map (Response 200) (bs @ [lst]) @ extra)),
          snd (query TEST options (JNum (c + limit_of b))
                   (rs @ spec_page_value (o_key options) b) (map (Response 200) (bs @ [lst]) @ extra)))"
    by (rule query_more [OF b])
  also have "\<dots> = (map (\<lambda>c. (JNum c, get_request TEST options (JNum c)))
              (cursors_from c (map limit_of (b # bs))),
          Callback (Inr (JArr (rs @ concat (map (spec_page_value (o_key options)) ((b # bs) @ [lst]))))))"
    unfolding Cons.IH [OF bs Cons.prems(2)] by simp
  finally show ?case .
qed

lemma get_ready:
  "ready this options \<Longrightarrow>
   get TEST this options responses = query TEST (resolve_options this options) (JNum 0) [] responses"
  by (auto simp: get_def ready_def)

lemma resolve_key [simp]: "o_key (resolve_options this options) = o_key options"
  by (simp add: resolve_options_def Let_def)

lemma length_cursors_from [simp]: "length (cursors_from c ls) = Suc (length ls)"
  by (induction ls arbitrary: c) simp_all

text \<open>
  C1. A paginated \<open>get\<close> over N pages, of which all but the last report \<open>more: true\<close>
  with an integer limit and the last reports \<open>more: false\<close>, calls the HTTP library exactly
  N times (whatever further responses the server would have given) and hands the callback
  the concatenation, in page order, of the value of each page: the elements of
  \<open>body[key]\<close> when a key is given and \<open>body[key]\<close> is a sequence, the whole body as one
  element when no key is given. The length of the result is the sum of the pages'
  contributions.
\<close>

theorem get_collects_all_pages:
  assumes "ready this options"
    and "list_all is_more_page bodies" and "is_last_page lst"
  shows "length (fst (get TEST this options (map (Response 200) (bodies @ [lst]) @ extra)))
           = length (bodies @ [lst])
       \<and> snd (get TEST this options (map (Response 200) (bodies @ [lst]) @ extra))
           = Callback (Inr (JArr (concat (map (spec_page_value (o_key options)) (bodies @ [lst])))))
       \<and> length (concat (map (spec_page_value (o_key options)) (bodies @ [lst])))
           = sum_list (map (\<lambda>b. length (spec_page_value (o_key options) b)) (bodies @ [lst]))"
  unfolding get_ready [OF assms(1)] query_pages [OF assms(2,3)]
  by (simp add: length_concat comp_def)

theorem get_collects_all_pages_witness:
  "length (fst (get True \<lparr> pd_token = Some ''t'', pd_timeout = 10000 \<rparr>
       \<lparr> o_path = Some ''users'', o_key = Some ''users'', o_token = None, o_timeout = None,
         o_body = JUndefined, o_headers = None \<rparr>
       [Response 200 (JObj [(''users'', JArr [JNum 1, JNum 2]), (''more'', JBool True),
                            (''limit'', JNum 100)]),
        Response 200 (JObj [(''users'', JArr [JNum 3]), (''more'', JBool False)]),
        NetworkError ()])) = 2
   \<and> snd (get True \<lparr> pd_token = Some ''t'', pd_timeout = 10000 \<rparr>
       \<lparr> o_path = Some ''users'', o_key = Some ''users'', o_token = None, o_timeout = None,
         o_body = JUndefined, o_headers = None \<rparr>
       [Response 200 (JObj [(''users'', JArr [JNum 1, JNum 2]), (''more'', JBool True),
                            (''limit'', JNum 100)]),
        Response 200 (JObj [(''users'', JArr [JNum 3]), (''more'', JBool False)]),
        NetworkError ()])
      = Callback (Inr (JArr [JNum 1, JNum 2, JNum 3]))"
  using get_collects_all_pages
    [of "\<lparr> pd_token = Some ''t'', pd_timeout = 10000 \<rparr>"
        "\<lparr> o_path = Some ''users'', o_key = Some ''users'', o_token = None, o_timeout = None,
           o_body = JUndefined, o_headers = None \<rparr>"
        "[JObj [(''users'', JArr [JNum 1, JNum 2]), (''more'', JBool True), (''limit'', JNum 100)]]"
        "JObj [(''users'', JArr [JNum 3]), (''more'', JBool False)]"
        True "[NetworkError ()]"]
  by (simp add: ready_def spec_page_value_def)

section \<open>Failure of a page\<close>

lemma get_prop_defined:
  "get_prop body k = Some v \<Longrightarrow> \<exists>w. get_prop body k' = Some w"
  by (cases body) simp_all

lemma query_network_error:
  "query TEST options offset rs (NetworkError err # rest) =
     ([(offset, get_request TEST options offset)], Callback (Inl (TransportError err)))"
  by (simp add: query.simps)

lemma query_bad_status:
  "status \<noteq> 200 \<Longrightarrow>
   query TEST options offset rs (Response status data # rest) =
     ([(offset, get_request TEST options offset)], Callback (Inl (http_error status data)))"
  by (simp add: query.simps Let_def)

lemma query_continues:
  assumes "continues body"
  shows "\<exists>offset' rs'. query TEST options offset rs (Response 200 body # rest) =
           ((offset, get_request TEST options offset) # fst (query TEST options offset' rs' rest),
            snd (query TEST options offset' rs' rest))"
proof -
  from assms obtain m where m: "get_prop body ''more'' = Some m" "truthy m"
    by (auto simp: continues_def split: option.splits)
  from get_prop_defined [OF m(1)] obtain l where l: "get_prop body ''limit'' = Some l" by blast
  from get_prop_defined [OF m(1)] obtain v
    where v: "get_prop body (template_str (o_key options)) = Some v" by blast
  show ?thesis
    by (simp add: query.simps validateStatus_def m l v Let_def) blast
qed

lemma query_fails_after:
  assumes "list_all continues bodies"
    and "\<And>offset rs. query TEST options offset rs (r # rest) =
            ([(offset, get_request TEST options offset)], Callback (Inl e))"
  shows "length (fst (query TEST options offset rs (map (Response 200) bodies @ r # rest)))
           = Suc (length bodies)
       \<and> snd (query TEST options offset rs (map (Response 200) bodies @ r # rest))
           = Callback (Inl e)"
  using assms(1)
proof (induction bodies arbitrary: offset rs)
  case Nil
  show ?case by (simp add: assms(2))
next
  case (Cons b bs)
  from Cons.prems have b: "continues b" and bs: "list_all continues bs" by simp_all
  from query_continues [OF b, of TEST options offset rs "map (Response 200) bs @ r # rest"]
  obtain offset' rs' where
    "query TEST options offset rs (Response 200 b # map (Response 200) bs @ r # rest) =
       ((offset, get_request TEST options offset) #
          fst (query TEST options offset' rs' (map (Response 200) bs @ r # rest)),
        snd (query TEST options offset' rs' (map (Response 200) bs @ r # rest)))"
    by blast
  with Cons.IH [OF bs, of offset' rs'] show ?case by simp
qed

text \<open>
  C2. When the fetch of page k fails, by an error of the transport or by a status other
  than 200, after k - 1 pages that were fetched and reported more, the callback receives
  exactly that error (the library's error as it came, or the string made of the status and
  the body) and no result, so nothing collected from the earlier pages is delivered; and
  exactly k calls were made, so none for a later page, whatever the server would have
  answered.
\<close>

theorem get_fails_fast:
  assumes "ready this options" and "list_all continues bodies"
  shows "length (fst (get TEST this options
             (map (Response 200) bodies @ NetworkError err # rest))) = Suc (length bodies)
       \<and> snd (get TEST this options (map (Response 200) bodies @ NetworkError err # rest))
           = Callback (Inl (TransportError err))
       \<and> (status \<noteq> 200 \<longrightarrow>
            length (fst (get TEST this options
               (map (Response 200) bodies @ Response status data # rest))) = Suc (length bodies)
          \<and> snd (get TEST this options (map (Response 200) bodies @ Response status data # rest))
              = Callback (Inl (http_error status data)))"
  unfolding get_ready [OF assms(1)]
  using query_fails_after [OF assms(2), of TEST _ "NetworkError err" rest "TransportError err"]
    query_fails_after [OF assms(2), of TEST _ "Response status data" rest "http_error status data"]
  by (simp add: query_network_error query_bad_status)

theorem get_fails_fast_witness:
  "length (fst (get True \<lparr> pd_token = Some ''t'', pd_timeout = 10000 \<rparr>
       \<lparr> o_path = Some ''users'', o_key = Some ''users'', o_token = None, o_timeout = None,
         o_body = JUndefined, o_headers = None \<rparr>
       ([Response 200 (JObj [(''users'', JArr [JNum 1, JNum 2]), (''more'', JBool True),
                            (''limit'', JNum 100)]),
        Response 500 (JObj [(''error'', JStr ''oops'')]),
        Response 200 (JObj [(''users'', JArr [JNum 3]), (''more'', JBool False)])]
        :: unit response list))) = 2
   \<and> snd (get True \<lparr> pd_token = Some ''t'', pd_timeout = 10000 \<rparr>
       \<lparr> o_path = Some ''users'', o_key = Some ''users'', o_token = None, o_timeout = None,
         o_body = JUndefined, o_headers = None \<rparr>
       ([Response 200 (JObj [(''users'', JArr [JNum 1, JNum 2]), (''more'', JBool True),
                            (''limit'', JNum 100)]),
        Response 500 (JObj [(''error'', JStr ''oops'')]),
        Response 200 (JObj [(''users'', JArr [JNum 3]), (''more'', JBool False)])]
        :: unit response list))
      = Callback (Inl (ErrorString ''HTTP status code 500: {\"error\":\"oops\"}''))"
  using get_fails_fast
    [where this = "\<lparr> pd_token = Some ''t'', pd_timeout = 10000 \<rparr>"
       and options = "\<lparr> o_path = Some ''users'', o_key = Some ''users'', o_token = None,
           o_timeout = None, o_body = JUndefined, o_headers = None \<rparr>"
       and bodies = "[JObj [(''users'', JArr [JNum 1, JNum 2]), (''more'', JBool True),
           (''limit'', JNum 100)]]"
       and status = 500 and TEST = True and err = "()"
       and rest = "[Response 200 (JObj [(''users'', JArr [JNum 3]), (''more'', JBool False)])]"
       and data = "JObj [(''error'', JStr ''oops'')]"]
  by (simp add: ready_def continues_def http_error_def JSON_stringify_def json_quote_def
      json_escape_char_def show_nat.simps digit_char_def)


section \<open>The cursor\<close>

lemma cursors_from_lower:
  "list_all (\<lambda>l. 0 < l) ls \<Longrightarrow> x \<in> set (cursors_from c ls) \<Longrightarrow> c \<le> x"
proof (induction ls arbitrary: c)
  case Nil
  then show ?case by simp
next
  case (Cons l ls)
  then show ?case by fastforce
qed

lemma sorted_cursors_from:
  "list_all (\<lambda>l. 0 < l) ls \<Longrightarrow> sorted_wrt (<) (cursors_from c ls)"
proof (induction ls arbitrary: c)
  case Nil
  then show ?case by simp
next
  case (Cons l ls)
  then have "\<forall>x \<in> set (cursors_from (c + l) ls). c < x"
    using cursors_from_lower [of ls _ "c + l"] by fastforce
  with Cons show ?case by simp
qed




text \<open>
  C8. A \<open>get\<close> whose response has status 200 and a body without a \<open>more\<close> property
  (whether or not it has a \<open>limit\<close>) ends after that one call, whatever the server
  would answer next, and the result is the value of that single page.
\<close>

theorem get_single_page_default:
  assumes "ready this options"
    and "map_of kvs ''more'' = None"
  shows "get TEST this options (Response 200 (JObj kvs) # rest) =
           ([(JNum 0, get_request TEST (resolve_options this options) (JNum 0))],
            Callback (Inr (JArr (spec_page_value (o_key options) (JObj kvs)))))"
  unfolding get_ready [OF assms(1)]
  by (auto simp: query.simps validateStatus_def Let_def assms(2) spec_page_value_def
      js_concat_conv split: option.splits jsval.splits)

theorem get_single_page_default_witness:
  "get True \<lparr> pd_token = Some ''t'', pd_timeout = 10000 \<rparr>
       \<lparr> o_path = Some ''escalation_policies/PPPPPPA'', o_key = Some ''escalation_policy'',
         o_token = None, o_timeout = None, o_body = JUndefined, o_headers = None \<rparr>
       ([Response 200 (JObj [(''escalation_policy'', JObj [(''id'', JStr ''PPPPPPA'')])]),
         Response 200 (JObj [])] :: unit response list)
   = ([(JNum 0,
        \<lparr> r_method = GET,
          r_url = ''http://localhost:3333/escalation_policies/PPPPPPA?offset=0&total=true&limit=100'',
          r_headers = [(''Accept'', ''application/vnd.pagerduty+json;version=2''),
                       (''Authorization'', ''Token token=t'')],
          r_data = None, r_timeout = Some 10000 \<rparr>)],
      Callback (Inr (JArr [JObj [(''id'', JStr ''PPPPPPA'')]])))"
proof -
  have u: "updateUrl ''http://localhost:3333/escalation_policies/PPPPPPA'' (JNum 0)
    = ''http://localhost:3333/escalation_policies/PPPPPPA?offset=0&total=true&limit=100''"
    by code_simp
  show ?thesis
    using get_single_page_default
      [where this = "\<lparr> pd_token = Some ''t'', pd_timeout = 10000 \<rparr>"
         and options = "\<lparr> o_path = Some ''escalation_policies/PPPPPPA'',
            o_key = Some ''escalation_policy'',
            o_token = None, o_timeout = None, o_body = JUndefined, o_headers = None \<rparr>"
         and kvs = "[(''escalation_policy'', JObj [(''id'', JStr ''PPPPPPA'')])]"
         and TEST = True and rest = "[Response 200 (JObj [])] :: unit response list"]
    by (simp add: ready_def spec_page_value_def get_request_def resolve_options_def
        default_headers_def baseUrl_def u)
qed



section \<open>Single requests\<close>

lemma post_ready:
  "ready_with_body this options \<Longrightarrow>
   post TEST this options responses =
     single_call
       \<lparr> r_method = POST,
         r_url = baseUrl TEST @ template_str (o_path (resolve_options this options)),
         r_headers = Object_assign (default_headers (resolve_options this options))
                       (o_headers (resolve_options this options)),
         r_data = Some (o_body (resolve_options this options)),
         r_timeout = o_timeout (resolve_options this options) \<rparr>
       201 responses"
  by (auto simp: post_def ready_with_body_def ready_def Let_def)

lemma put_ready:
  "ready_with_body this options \<Longrightarrow>
   put TEST this options responses =
     single_call
       \<lparr> r_method = PUT,
         r_url = baseUrl TEST @ template_str (o_path (resolve_options this options)),
         r_headers = Object_assign (default_headers (resolve_options this options))
                       (o_headers (resolve_options this options)),
         r_data = Some (o_body (resolve_options this options)),
         r_timeout = o_timeout (resolve_options this options) \<rparr>
       200 responses"
  by (auto simp: put_def ready_with_body_def ready_def Let_def)

lemma delete_ready:
  "ready this options \<Longrightarrow>
   delete TEST this options responses =
     single_call
       \<lparr> r_method = DELETE,
         r_url = baseUrl TEST @ template_str (o_path (resolve_options this options)),
         r_headers = default_headers (resolve_options this options),
         r_data = None,
         r_timeout = o_timeout (resolve_options this options) \<rparr>
       204 responses"
  by (auto simp: delete_def ready_def Let_def)

lemma single_call_bad_status:
  "status \<noteq> expected \<Longrightarrow>
   single_call req expected (Response status data # rs) =
     ([req], Callback (Inl (http_error status data)))"
  by (simp add: single_call_def)

lemma single_call_expected:
  "validateStatus expected \<Longrightarrow>
   single_call req expected (Response expected data # rs) =
     ([req], Callback (Inr (JObj [(''body'', data)])))"
  by (simp add: single_call_def)

lemma fst_single_call [simp]: "fst (single_call req expected responses) = [req]"
  by (simp add: single_call_def split: list.splits response.splits)

text \<open>
  C6. Once the options are accepted, each operation succeeds on one status only: 200 for
  \<open>get\<close>, 201 for \<open>post\<close>, 200 for \<open>put\<close>, 204 for \<open>delete\<close>. On any other
  status, inside or outside the range from 200 to 299 (a \<open>post\<close> that receives 200, for
  one), the callback receives the string \<open>HTTP status code\<close>, the status in decimal, a
  colon and a blank, and the body as \<open>JSON.stringify\<close> prints it. On the expected status
  \<open>post\<close>, \<open>put\<close> and \<open>delete\<close> hand over the body.
\<close>

theorem status_strictness:
  assumes "ready this options"
  shows "(status \<noteq> 200 \<longrightarrow>
            snd (get TEST this options (Response status data # rs)) =
              Callback (Inl (ErrorString
                (''HTTP status code '' @ show_nat status @ '': '' @ JSON_stringify data))))
       \<and> (truthy (o_body options) \<and> status \<noteq> 201 \<longrightarrow>
            snd (post TEST this options (Response status data # rs)) =
              Callback (Inl (ErrorString
                (''HTTP status code '' @ show_nat status @ '': '' @ JSON_stringify data))))
       \<and> (truthy (o_body options) \<and> status \<noteq> 200 \<longrightarrow>
            snd (put TEST this options (Response status data # rs)) =
              Callback (Inl (ErrorString
                (''HTTP status code '' @ show_nat status @ '': '' @ JSON_stringify data))))
       \<and> (status \<noteq> 204 \<longrightarrow>
            snd (delete TEST this options (Response status data # rs)) =
              Callback (Inl (ErrorString
                (''HTTP status code '' @ show_nat status @ '': '' @ JSON_stringify data))))
       \<and> (truthy (o_body options) \<longrightarrow>
            snd (post TEST this options (Response 201 data # rs)) =
              Callback (Inr (JObj [(''body'', data)]))
          \<and> snd (put TEST this options (Response 200 data # rs)) =
              Callback (Inr (JObj [(''body'', data)])))
       \<and> snd (delete TEST this options (Response 204 data # rs)) =
              Callback (Inr (JObj [(''body'', data)]))"
  using assms
  by (simp add: get_ready query_bad_status post_ready put_ready delete_ready
      ready_with_body_def single_call_bad_status single_call_expected validateStatus_def
      http_error_def)

theorem status_strictness_witness:
  "snd (post True \<lparr> pd_token = Some ''t'', pd_timeout = 10000 \<rparr>
       \<lparr> o_path = Some ''users'', o_key = None, o_token = None, o_timeout = None,
         o_body = JObj [(''user'', JObj [])], o_headers = None \<rparr>
       ([Response 200 (JObj [(''user'', JObj [(''id'', JNum 7)])])] :: unit response list))
     = Callback (Inl (ErrorString ''HTTP status code 200: {\"user\":{\"id\":7}}''))
   \<and> snd (delete True \<lparr> pd_token = Some ''t'', pd_timeout = 10000 \<rparr>
       \<lparr> o_path = Some ''users'', o_key = None, o_token = None, o_timeout = None,
         o_body = JObj [(''user'', JObj [])], o_headers = None \<rparr>
       ([Response 404 (JObj [(''error'', JStr ''Not Found'')])] :: unit response list))
     = Callback (Inl (ErrorString ''HTTP status code 404: {\"error\":\"Not Found\"}''))"
  using status_strictness
    [where this = "\<lparr> pd_token = Some ''t'', pd_timeout = 10000 \<rparr>"
       and options = "\<lparr> o_path = Some ''users'', o_key = None, o_token = None,
           o_timeout = None, o_body = JObj [(''user'', JObj [])], o_headers = None \<rparr>"
       and TEST = True and status = 200 and rs = "[] :: unit response list"
       and data = "JObj [(''user'', JObj [(''id'', JNum 7)])]"]
    status_strictness
    [where this = "\<lparr> pd_token = Some ''t'', pd_timeout = 10000 \<rparr>"
       and options = "\<lparr> o_path = Some ''users'', o_key = None, o_token = None,
           o_timeout = None, o_body = JObj [(''user'', JObj [])], o_headers = None \<rparr>"
       and TEST = True and status = 404 and rs = "[] :: unit response list"
       and data = "JObj [(''error'', JStr ''Not Found'')]"]
  by (simp add: ready_def JSON_stringify_def json_quote_def json_escape_char_def
      show_nat.simps digit_char_def show_int_def)

section \<open>Tokens\<close>

lemma resolve_token_given:
  "truthy_str (o_token options) \<Longrightarrow>
   resolve_options (this \<lparr> pd_token := t \<rparr>) options = resolve_options this options"
  by (simp add: resolve_options_def Let_def)

lemma resolve_token_kept:
  "truthy_str (o_token options) \<Longrightarrow> o_token (resolve_options this options) = o_token options"
  by (simp add: resolve_options_def Let_def)

lemma query_requests:
  "cr \<in> set (fst (query TEST options offset rs responses)) \<Longrightarrow>
   \<exists>c. snd cr = get_request TEST options c"
proof (induction responses arbitrary: offset rs)
  case Nil
  then show ?case by (auto simp: query.simps)
next
  case (Cons r responses)
  then show ?case
    by (auto simp: query.simps Let_def split: response.splits if_splits option.splits)
qed




section \<open>Headers\<close>

lemma map_of_set_prop: "map_of (set_prop t k v) = (map_of t)(k \<mapsto> v)"
  by (induction t) auto

lemma map_of_foldl_set_prop:
  "map_of (foldl (\<lambda>t kv. set_prop t (fst kv) (snd kv)) t kvs) = map_of t ++ map_of (rev kvs)"
proof (induction kvs arbitrary: t)
  case Nil
  show ?case by simp
next
  case (Cons kv kvs)
  show ?case
    by (rule ext) (simp add: Cons.IH map_of_set_prop map_add_def split: option.splits)
qed

lemma map_of_rev_distinct: "distinct (map fst kvs) \<Longrightarrow> map_of (rev kvs) = map_of kvs"
proof (induction kvs)
  case Nil
  show ?case by simp
next
  case (Cons kv kvs)
  then have "map_of kvs (fst kv) = None"
    by (simp add: map_of_eq_None_iff)
  with Cons show ?case
    by (intro ext) (auto simp: map_add_def split: option.splits)
qed

lemma map_of_Object_assign:
  "distinct (map fst (caller_headers options)) \<Longrightarrow>
   map_of (Object_assign target (o_headers options)) = map_of target ++ map_of (caller_headers options)"
  by (auto simp: Object_assign_def caller_headers_def map_of_foldl_set_prop map_of_rev_distinct
      split: option.splits)

lemma resolve_headers [simp]: "o_headers (resolve_options this options) = o_headers options"
  by (simp add: resolve_options_def Let_def)

lemma caller_headers_resolve [simp]:
  "caller_headers (resolve_options this options) = caller_headers options"
  by (simp add: caller_headers_def)

text \<open>
  C9. For \<open>post\<close> and \<open>put\<close> the one request carries the shallow merge of the two
  mandatory headers, Accept and Authorization, with the caller's headers (an object, so
  its names are distinct): a name the caller supplies has the caller's value, also when it
  is exactly the name of a mandatory header, every other name has the mandatory value, and
  the names present are the two mandatory ones and all of the caller's.
\<close>

theorem header_merge:
  assumes "ready_with_body this options"
    and "distinct (map fst (caller_headers options))"
  shows "map (\<lambda>rq. map_of (r_headers rq)) (fst (post TEST this options rs))
           = [map_of (default_headers (resolve_options this options))
                ++ map_of (caller_headers options)]
       \<and> map (\<lambda>rq. map_of (r_headers rq)) (fst (put TEST this options rs))
           = [map_of (default_headers (resolve_options this options))
                ++ map_of (caller_headers options)]
       \<and> (\<forall>k. (map_of (default_headers (resolve_options this options))
                ++ map_of (caller_headers options)) k
              = (case map_of (caller_headers options) k of
                   Some v \<Rightarrow> Some v
                 | None \<Rightarrow> map_of (default_headers (resolve_options this options)) k))
       \<and> dom (map_of (default_headers (resolve_options this options))
                ++ map_of (caller_headers options))
           = {''Accept'', ''Authorization''} \<union> fst ` set (caller_headers options)"
proof (intro conjI allI)
  show "map (\<lambda>rq. map_of (r_headers rq)) (fst (post TEST this options rs))
           = [map_of (default_headers (resolve_options this options))
                ++ map_of (caller_headers options)]"
    by (simp add: post_ready [OF assms(1)] map_of_Object_assign [OF assms(2)])
  show "map (\<lambda>rq. map_of (r_headers rq)) (fst (put TEST this options rs))
           = [map_of (default_headers (resolve_options this options))
                ++ map_of (caller_headers options)]"
    by (simp add: put_ready [OF assms(1)] map_of_Object_assign [OF assms(2)])
  show "(map_of (default_headers (resolve_options this options))
                ++ map_of (caller_headers options)) k
              = (case map_of (caller_headers options) k of
                   Some v \<Rightarrow> Some v
                 | None \<Rightarrow> map_of (default_headers (resolve_options this options)) k)" for k
    by (simp add: map_add_def split: option.splits)
  show "dom (map_of (default_headers (resolve_options this options))
                ++ map_of (caller_headers options))
           = {''Accept'', ''Authorization''} \<union> fst ` set (caller_headers options)"
    by (auto simp: dom_map_of_conv_image_fst default_headers_def)
qed

theorem header_merge_witness:
  "map r_headers (fst (post True \<lparr> pd_token = Some ''t'', pd_timeout = 10000 \<rparr>
       \<lparr> o_path = Some ''users'', o_key = None, o_token = None, o_timeout = None,
         o_body = JObj [], o_headers = Some [(''From'', ''a@b.c''), (''Accept'', ''text/plain'')] \<rparr>
       ([] :: unit response list)))
     = [[(''Accept'', ''text/plain''), (''Authorization'', ''Token token=t''),
         (''From'', ''a@b.c'')]]
   \<and> map (\<lambda>rq. map_of (r_headers rq)) (fst (post True \<lparr> pd_token = Some ''t'', pd_timeout = 10000 \<rparr>
       \<lparr> o_path = Some ''users'', o_key = None, o_token = None, o_timeout = None,
         o_body = JObj [], o_headers = Some [(''From'', ''a@b.c''), (''Accept'', ''text/plain'')] \<rparr>
       ([] :: unit response list)))
     = [map_of [(''Accept'', ''application/vnd.pagerduty+json;version=2''),
                (''Authorization'', ''Token token=t'')]
          ++ map_of [(''From'', ''a@b.c''), (''Accept'', ''text/plain'')]]"
  using header_merge
    [where this = "\<lparr> pd_token = Some ''t'', pd_timeout = 10000 \<rparr>"
       and options = "\<lparr> o_path = Some ''users'', o_key = None, o_token = None,
           o_timeout = None, o_body = JObj [],
           o_headers = Some [(''From'', ''a@b.c''), (''Accept'', ''text/plain'')] \<rparr>"
       and TEST = True and rs = "[] :: unit response list"]
  by (simp add: ready_with_body_def ready_def caller_headers_def post_def Let_def
      resolve_options_def default_headers_def Object_assign_def)

section \<open>Kinds of error values\<close>

text \<open>
  C10. The error the callback receives is not of one type: a missing path, body or token
  gives an \<open>Error\<close> object, a status other than the expected one gives a bare string, and
  an error of the transport is handed on as the HTTP library produced it.
\<close>

theorem error_values_not_uniform:
  "(\<not> truthy_str (o_path options) \<longrightarrow>
      snd (get TEST this options rs) = Callback (Inl (ErrorObject ''Must provide options.path''))
    \<and> snd (post TEST this options rs) = Callback (Inl (ErrorObject ''Must provide options.path'')))
   \<and> (truthy_str (o_path options) \<and> \<not> truthy (o_body options) \<longrightarrow>
      snd (post TEST this options rs) = Callback (Inl (ErrorObject ''Must provide options.body'')))
   \<and> (truthy_str (o_path options) \<and> \<not> truthy_str (o_token options)
        \<and> \<not> truthy_str (pd_token this) \<longrightarrow>
      snd (get TEST this options rs)
        = Callback (Inl (ErrorObject ''Must provide PagerDuty access token'')))
   \<and> (ready this options \<and> status \<noteq> 200 \<longrightarrow>
      snd (get TEST this options (Response status data # rs))
        = Callback (Inl (ErrorString
            (''HTTP status code '' @ show_nat status @ '': '' @ JSON_stringify data))))
   \<and> (ready this options \<longrightarrow>
      snd (get TEST this options (NetworkError err # rs)) = Callback (Inl (TransportError err)))"
  by (simp add: get_ready query_bad_status query_network_error http_error_def)
     (simp add: get_def post_def)

theorem error_values_not_uniform_witness:
  "snd (get True \<lparr> pd_token = Some ''t'', pd_timeout = 10000 \<rparr>
       \<lparr> o_path = None, o_key = None, o_token = None, o_timeout = None,
         o_body = JUndefined, o_headers = None \<rparr> ([] :: string response list))
     = Callback (Inl (ErrorObject ''Must provide options.path''))
   \<and> snd (get True \<lparr> pd_token = Some ''t'', pd_timeout = 10000 \<rparr>
       \<lparr> o_path = Some ''undefined'', o_key = None, o_token = None, o_timeout = None,
         o_body = JUndefined, o_headers = None \<rparr>
       ([Response 404 (JObj [(''error'', JStr ''Not Found'')])] :: string response list))
     = Callback (Inl (ErrorString ''HTTP status code 404: {\"error\":\"Not Found\"}''))
   \<and> snd (get True \<lparr> pd_token = Some ''t'', pd_timeout = 10000 \<rparr>
       \<lparr> o_path = Some ''undefined'', o_key = None, o_token = None, o_timeout = None,
         o_body = JUndefined, o_headers = None \<rparr>
       ([NetworkError ''ETIMEDOUT''] :: string response list))
     = Callback (Inl (TransportError ''ETIMEDOUT''))"
  using error_values_not_uniform
    [where this = "\<lparr> pd_token = Some ''t'', pd_timeout = 10000 \<rparr>"
       and options = "\<lparr> o_path = None, o_key = None, o_token = None, o_timeout = None,
         o_body = JUndefined, o_headers = None \<rparr>"
       and TEST = True and rs = "[] :: string response list"]
    error_values_not_uniform
    [where this = "\<lparr> pd_token = Some ''t'', pd_timeout = 10000 \<rparr>"
       and options = "\<lparr> o_path = Some ''undefined'', o_key = None, o_token = None,
         o_timeout = None, o_body = JUndefined, o_headers = None \<rparr>"
       and TEST = True and rs = "[] :: string response list" and status = 404
       and data = "JObj [(''error'', JStr ''Not Found'')]" and err = "''ETIMEDOUT''"]
  by (simp add: ready_def JSON_stringify_def json_quote_def json_escape_char_def
      show_nat.simps digit_char_def)



section \<open>Escaping\<close>

lemma hex_table:
  "\<forall>n \<in> set [0..<16]. is_hex (hex_char n) \<and> hex_val (hex_char n) = n \<and> unreserved (hex_char n)"
  by code_simp

lemma hex_char_props:
  assumes "n < 16"
  shows "is_hex (hex_char n)" "hex_val (hex_char n) = n" "unreserved (hex_char n)"
proof -
  from assms have "n \<in> set [0..<16]" by simp
  with hex_table show "is_hex (hex_char n)" "hex_val (hex_char n) = n" "unreserved (hex_char n)"
    by blast+
qed

lemma unreserved_not_special:
  "unreserved c \<Longrightarrow>
   c \<noteq> CHR ''+'' \<and> c \<noteq> CHR ''%'' \<and> c \<noteq> CHR ''&'' \<and> c \<noteq> CHR ''='' \<and> c \<noteq> CHR ''#''
   \<and> c \<noteq> CHR ''?''"
  by (auto simp: unreserved_def)

lemma qs_escape_Nil [simp]: "qs_escape [] = []"
  by (simp add: qs_escape_def)

lemma qs_escape_Cons: "qs_escape (c # s) = escape_char c @ qs_escape s"
  by (simp add: qs_escape_def)

lemma qs_unescape_escape_char: "qs_unescape (escape_char c @ s) = c # qs_unescape s"
proof (cases "unreserved c")
  case True
  then show ?thesis
    using unreserved_not_special [of c] by (simp add: escape_char_def)
next
  case False
  have d: "(of_char c :: nat) div 16 < 16" and m: "(of_char c :: nat) mod 16 < 16"
    using nat_of_char_less_256 [of c] by arith+
  have "char_of (16 * hex_val (hex_char (of_char c div 16)) + hex_val (hex_char (of_char c mod 16)))
          = char_of (of_char c :: nat)"
    by (simp add: hex_char_props(2) [OF d] hex_char_props(2) [OF m])
  with False show ?thesis
    by (simp add: escape_char_def hex_char_props(1) [OF d] hex_char_props(1) [OF m])
qed

lemma qs_unescape_escape [simp]: "qs_unescape (qs_escape s) = s"
  by (induction s) (simp_all add: qs_escape_Cons qs_unescape_escape_char)

lemma escape_char_chars: "x \<in> set (escape_char c) \<Longrightarrow> unreserved x \<or> x = CHR ''%''"
proof -
  have d: "(of_char c :: nat) div 16 < 16" and m: "(of_char c :: nat) mod 16 < 16"
    using nat_of_char_less_256 [of c] by arith+
  assume "x \<in> set (escape_char c)"
  then show ?thesis
    using hex_char_props(3) [OF d] hex_char_props(3) [OF m]
    by (auto simp: escape_char_def split: if_splits)
qed

lemma qs_escape_chars: "x \<in> set (qs_escape s) \<Longrightarrow> unreserved x \<or> x = CHR ''%''"
  by (auto simp: qs_escape_def dest: escape_char_chars)

lemma qs_escape_no_special:
  "CHR ''&'' \<notin> set (qs_escape s)" "CHR ''='' \<notin> set (qs_escape s)"
  "CHR ''#'' \<notin> set (qs_escape s)"
  using qs_escape_chars [of _ s] unreserved_not_special by fastforce+

section \<open>Fields and segments\<close>

lemma pair_field_no_special:
  "CHR ''&'' \<notin> set (pair_field p)" "CHR ''#'' \<notin> set (pair_field p)"
  by (simp_all add: pair_field_def qs_escape_no_special)

lemma pair_field_not_Nil [simp]: "pair_field p \<noteq> []"
  by (simp add: pair_field_def)

lemma takeWhile_sep: "c \<notin> set s \<Longrightarrow> takeWhile (\<lambda>x. x \<noteq> c) (s @ c # t) = s"
  by (induction s) auto

lemma dropWhile_sep: "c \<notin> set s \<Longrightarrow> dropWhile (\<lambda>x. x \<noteq> c) (s @ c # t) = c # t"
  by (induction s) auto

lemma takeWhile_no_sep: "c \<notin> set s \<Longrightarrow> takeWhile (\<lambda>x. x \<noteq> c) s = s"
  by (induction s) auto

lemma dropWhile_no_sep: "c \<notin> set s \<Longrightarrow> dropWhile (\<lambda>x. x \<noteq> c) s = []"
  by (induction s) auto

lemma segment_of_pair_field:
  "(segment_key (pair_field p), segment_value (pair_field p)) = p"
  by (simp add: segment_key_def segment_value_def pair_field_def takeWhile_sep dropWhile_sep
      qs_escape_no_special)

section \<open>Splitting and joining\<close>

lemma split_on_not_Nil [simp]: "split_on c s \<noteq> []"
  by (induction s) (auto split: list.splits)

lemma split_on_no_sep: "c \<notin> set s \<Longrightarrow> split_on c s = [s]"
  by (induction s) auto

lemma split_on_append:
  "c \<notin> set s \<Longrightarrow> split_on c (s @ c # t) = s # split_on c t"
  by (induction s) auto

lemma split_on_join:
  "segs \<noteq> [] \<Longrightarrow> \<forall>s \<in> set segs. c \<notin> set s \<Longrightarrow> split_on c (join_with c segs) = segs"
proof (induction c segs rule: join_with.induct)
  case (1 c)
  then show ?case by simp
next
  case (2 c x)
  then show ?case by (simp add: split_on_no_sep)
next
  case (3 c x y zs)
  then show ?case by (simp add: split_on_append)
qed

lemma join_with_chars:
  "x \<in> set (join_with c segs) \<Longrightarrow> x = c \<or> (\<exists>s \<in> set segs. x \<in> set s)"
  by (induction c segs rule: join_with.induct) auto

lemma query_pairs_join:
  assumes "ps \<noteq> []"
  shows "query_pairs (Some (join_with (CHR ''&'') (map pair_field ps))) = take maxKeys ps"
proof -
  have "split_on (CHR ''&'') (join_with (CHR ''&'') (map pair_field ps)) = map pair_field ps"
    using assms by (intro split_on_join) (auto simp: pair_field_no_special)
  moreover have "filter (\<lambda>seg. seg \<noteq> []) (map pair_field (take maxKeys ps))
                   = map pair_field (take maxKeys ps)"
    by (simp add: filter_map comp_def)
  ultimately show ?thesis
    by (simp add: query_pairs_def take_map comp_def segment_of_pair_field)
qed


section \<open>Objects and the pairs they print\<close>

declare addKeyValue.simps [simp del]

lemma own_keys_conv: "own_keys obj = key_order (map fst obj)"
  by (simp add: own_keys_def key_order_def Let_def)

lemma qs_fields_conv: "qs_fields k v = map (\<lambda>x. pair_field (k, x)) (prop_values v)"
  by (cases v) (simp_all add: qs_field_def pair_field_def)

lemma qs_stringify_pairs:
  "qs_stringify obj = join_with (CHR ''&'') (map pair_field (qs_pairs obj))"
proof -
  have "concat (map (\<lambda>k. case map_of obj k of Some v \<Rightarrow> qs_fields k v | None \<Rightarrow> []) ks)
      = map pair_field (concat (map (\<lambda>k. case map_of obj k of
                          Some v \<Rightarrow> map (Pair k) (prop_values v)
                        | None \<Rightarrow> []) ks))" for ks
    by (induction ks) (simp_all add: qs_fields_conv comp_def split: option.splits)
  then show ?thesis
    by (simp add: qs_stringify_def qs_pairs_def)
qed

lemma map_fst_set_prop:
  "map fst (set_prop obj k v) = (if k \<in> set (map fst obj) then map fst obj else map fst obj @ [k])"
  by (induction obj) force+

lemma set_prop_new: "k \<notin> fst ` set obj \<Longrightarrow> set_prop obj k v = obj @ [(k, v)]"
  by (induction obj) auto

lemma hasOwnProperty_iff: "hasOwnProperty obj k \<longleftrightarrow> k \<in> fst ` set obj"
  by (simp add: hasOwnProperty_def map_of_eq_None_iff)

section \<open>What parsing builds\<close>

lemma parse_pairs_snoc:
  "parse_pairs (ps @ [p]) = addKeyValue (parse_pairs ps) (fst p) (snd p)"
  by (simp add: parse_pairs_def)

lemma map_fst_addKeyValue:
  "map fst (addKeyValue obj k v) =
     (if k \<in> set (map fst obj) then map fst obj else map fst obj @ [k])"
  by (auto simp: addKeyValue.simps map_fst_set_prop split: option.splits jsval.splits)

lemma first_keys_snoc:
  "first_keys (ps @ [p]) =
     (if fst p \<in> fst ` set ps then first_keys ps else first_keys ps @ [fst p])"
  by (simp add: first_keys_def)

lemma set_first_keys [simp]: "set (first_keys ps) = fst ` set ps"
  by (simp add: first_keys_def)

lemma distinct_first_keys [simp]: "distinct (first_keys ps)"
  by (simp add: first_keys_def)

lemma keys_parse_pairs: "map fst (parse_pairs ps) = first_keys ps"
proof (induction ps rule: rev_induct)
  case Nil
  show ?case by (simp add: parse_pairs_def first_keys_def)
next
  case (snoc p ps)
  have "set (map fst (parse_pairs ps)) = fst ` set ps"
    unfolding snoc.IH by simp
  then show ?case
    unfolding parse_pairs_snoc map_fst_addKeyValue first_keys_snoc using snoc.IH by simp
qed

text \<open>The pairs one property prints.\<close>

lemma prop_values_snoc:
  "prop_values (JArr (xs @ [JStr v])) = prop_values (JArr xs) @ [v]"
  by simp

lemma prop_values_pair:
  "\<not> is_JArr cur \<Longrightarrow> prop_values (JArr [cur, JStr v]) = prop_values cur @ [v]"
  by (cases cur) simp_all

lemma group_addKeyValue:
  "(case map_of (addKeyValue obj k v) k' of
      Some x \<Rightarrow> map (Pair k') (prop_values x) | None \<Rightarrow> [])
   = (case map_of obj k' of Some x \<Rightarrow> map (Pair k') (prop_values x) | None \<Rightarrow> [])
     @ (if k' = k then [(k, v)] else [])"
proof (cases "map_of obj k")
  case None
  then show ?thesis by (simp add: addKeyValue.simps map_of_set_prop)
next
  case (Some cur)
  show ?thesis
  proof (cases "is_JArr cur")
    case True
    then obtain xs where "cur = JArr xs" by (cases cur) simp_all
    with Some show ?thesis by (simp add: addKeyValue.simps map_of_set_prop)
  next
    case False
    then have "addKeyValue obj k v = set_prop obj k (JArr [cur, JStr v])"
      using Some by (cases cur) (simp_all add: addKeyValue.simps)
    with Some False show ?thesis
      by (simp add: map_of_set_prop prop_values_pair del: prop_values.simps)
  qed
qed

lemma group_parse_pairs:
  "(case map_of (parse_pairs ps) k of
      Some x \<Rightarrow> map (Pair k) (prop_values x) | None \<Rightarrow> [])
   = filter (\<lambda>p. fst p = k) ps"
proof (induction ps rule: rev_induct)
  case Nil
  show ?case by (simp add: parse_pairs_def)
next
  case (snoc p ps)
  show ?case
    unfolding parse_pairs_snoc group_addKeyValue snoc.IH
    by (cases p) auto
qed

lemma qs_pairs_parse_pairs: "qs_pairs (parse_pairs ps) = grouped ps"
  by (simp add: qs_pairs_def grouped_def own_keys_conv keys_parse_pairs group_parse_pairs)

lemma first_keys_Nil [simp]: "first_keys [] = []"
  by (simp add: first_keys_def)

lemma foldl_segments:
  "foldl (\<lambda>obj seg. addKeyValue obj (segment_key seg) (segment_value seg)) obj segs
   = foldl (\<lambda>obj p. addKeyValue obj (fst p) (snd p)) obj
       (map (\<lambda>seg. (segment_key seg, segment_value seg)) segs)"
  by (induction segs arbitrary: obj) simp_all

lemma qs_parse_conv: "qs_parse q = parse_pairs (query_pairs q)"
proof (cases q)
  case None
  then show ?thesis by (simp add: qs_parse_def query_pairs_def parse_pairs_def)
next
  case (Some qs)
  show ?thesis
  proof (cases "qs = []")
    case True
    with Some show ?thesis
      by (simp add: qs_parse_def query_pairs_def parse_pairs_def maxKeys_def)
  next
    case False
    with Some show ?thesis
      by (simp add: qs_parse_def query_pairs_def parse_pairs_def foldl_segments)
  qed
qed

section \<open>Adding the defaults\<close>

lemma key_order_snoc: "\<not> is_index k \<Longrightarrow> key_order (ks @ [k]) = key_order ks @ [k]"
  by (simp add: key_order_def)

lemma qs_pairs_new_key:
  assumes "k \<notin> fst ` set obj" and "\<not> is_index k"
  shows "qs_pairs (set_prop obj k v) = qs_pairs obj @ map (Pair k) (prop_values v)"
proof -
  define g where "g = (\<lambda>k'. case map_of obj k' of
                          Some x \<Rightarrow> map (Pair k') (prop_values x) | None \<Rightarrow> [])"
  define g' where "g' = (\<lambda>k'. case map_of (obj @ [(k, v)]) k' of
                          Some x \<Rightarrow> map (Pair k') (prop_values x) | None \<Rightarrow> [])"
  have n: "map_of obj k = None" using assms(1) by (simp add: map_of_eq_None_iff)
  have new: "g' k = map (Pair k) (prop_values v)"
    by (simp add: g'_def n map_add_def)
  have old: "g' k' = g k'" if "k' \<in> set (key_order (map fst obj))" for k'
  proof -
    from that have "k' \<in> fst ` set obj" by (auto simp: key_order_def)
    then obtain x where "map_of obj k' = Some x"
      by (metis map_of_eq_None_iff not_Some_eq)
    then show ?thesis by (simp add: g_def g'_def map_add_def)
  qed
  have "qs_pairs (set_prop obj k v) = concat (map g' (key_order (map fst obj @ [k])))"
    by (simp add: qs_pairs_def own_keys_conv set_prop_new [OF assms(1)] g'_def)
  also have "\<dots> = concat (map g' (key_order (map fst obj))) @ g' k"
    by (simp add: key_order_snoc [OF assms(2)])
  also have "map g' (key_order (map fst obj)) = map g (key_order (map fst obj))"
    by (rule map_cong [OF refl]) (rule old)
  also have "concat (map g (key_order (map fst obj))) = qs_pairs obj"
    by (simp add: qs_pairs_def own_keys_conv g_def)
  finally show ?thesis by (simp add: new)
qed

lemma not_index_defaults [simp]:
  "\<not> is_index ''offset''" "\<not> is_index ''total''" "\<not> is_index ''limit''"
  by (simp_all add: is_index_def is_digit_def)

lemma fst_set_set_prop: "fst ` set (set_prop obj k v) = insert k (fst ` set obj)"
  using map_fst_set_prop [of obj k v]
  by (metis (no_types, lifting) insert_absorb list.set_map set_append list.simps(15) 
      Un_insert_right sup_bot.right_neutral empty_set)


section \<open>The structure of the result of updateUrl\<close>

lemma set_key_order [simp]: "set (key_order ks) = set ks"
  by (auto simp: key_order_def)

lemma distinct_key_order [simp]: "distinct ks \<Longrightarrow> distinct (key_order ks)"
  by (auto simp: key_order_def)

lemma fst_set_parse_pairs: "fst ` set (parse_pairs ps) = fst ` set ps"
  using keys_parse_pairs [of ps] set_first_keys [of ps] by (metis list.set_map)

lemma qs_pairs_with_defaults:
  fixes obj :: qsobj and offset :: jsval
  defines "qs1 \<equiv> (if \<not> hasOwnProperty obj ''offset'' then set_prop obj ''offset'' offset else obj)"
  defines "qs2 \<equiv> (if \<not> hasOwnProperty qs1 ''total'' then set_prop qs1 ''total'' (JBool True) else qs1)"
  defines "qs3 \<equiv> (if \<not> hasOwnProperty qs2 ''limit'' then set_prop qs2 ''limit'' (JNum 100) else qs2)"
  shows "qs_pairs qs3 =
           qs_pairs obj @
           (if ''offset'' \<in> fst ` set obj then [] else map (Pair ''offset'') (prop_values offset)) @
           (if ''total'' \<in> fst ` set obj then [] else [(''total'', ''true'')]) @
           (if ''limit'' \<in> fst ` set obj then [] else [(''limit'', ''100'')])"
proof -
  have k1: "fst ` set qs1 = (if ''offset'' \<in> fst ` set obj then fst ` set obj
                               else insert ''offset'' (fst ` set obj))"
    by (simp add: qs1_def hasOwnProperty_iff fst_set_set_prop)
  have p1: "qs_pairs qs1 = qs_pairs obj @
           (if ''offset'' \<in> fst ` set obj then [] else map (Pair ''offset'') (prop_values offset))"
    by (simp add: qs1_def hasOwnProperty_iff qs_pairs_new_key)
  have t1: "''total'' \<in> fst ` set qs1 \<longleftrightarrow> ''total'' \<in> fst ` set obj"
    by (simp add: k1)
  have k2: "fst ` set qs2 = (if ''total'' \<in> fst ` set obj then fst ` set qs1
                               else insert ''total'' (fst ` set qs1))"
    by (simp add: qs2_def hasOwnProperty_iff fst_set_set_prop t1)
  have p2: "qs_pairs qs2 = qs_pairs qs1 @
           (if ''total'' \<in> fst ` set obj then [] else [(''total'', ''true'')])"
    by (simp add: qs2_def hasOwnProperty_iff qs_pairs_new_key t1)
  have t2: "''limit'' \<in> fst ` set qs2 \<longleftrightarrow> ''limit'' \<in> fst ` set obj"
    by (simp add: k2 k1)
  have p3: "qs_pairs qs3 = qs_pairs qs2 @
           (if ''limit'' \<in> fst ` set obj then [] else [(''limit'', ''100'')])"
    by (simp add: qs3_def hasOwnProperty_iff qs_pairs_new_key t2 show_int_def show_nat.simps
        digit_char_def)
  show ?thesis by (simp add: p3 p2 p1)
qed

lemma replace_hash_id: "CHR ''#'' \<notin> set s \<Longrightarrow> replace_hash s = s"
  by (induction s) auto

lemma join_fields_no_hash: "CHR ''#'' \<notin> set (join_with (CHR ''&'') (map pair_field ps))"
  using join_with_chars [of "CHR ''#''" "CHR ''&''" "map pair_field ps"]
  by (auto simp: pair_field_no_special)

lemma url_fragment_conv: "url_fragment address = dropWhile (\<lambda>c. c \<noteq> CHR ''#'') address"
proof (cases "dropWhile (\<lambda>c. c \<noteq> CHR ''#'') address")
  case Nil
  then show ?thesis by (simp only: url_fragment_def url_parse_def Let_def) simp
next
  case (Cons c cs)
  then show ?thesis by (simp only: url_fragment_def url_parse_def Let_def) simp
qed

lemma url_base_conv:
  "url_base address =
     takeWhile (\<lambda>c. c \<noteq> CHR ''?'') (takeWhile (\<lambda>c. c \<noteq> CHR ''#'') address)"
  by (simp add: url_base_def url_parse_def Let_def)

lemma url_fragment_shape:
  "url_fragment address = [] \<or> hd (url_fragment address) = CHR ''#''"
  unfolding url_fragment_conv
  using hd_dropWhile [of "\<lambda>c. c \<noteq> CHR ''#''" address] by auto

lemma url_base_chars:
  "CHR ''?'' \<notin> set (url_base address)" "CHR ''#'' \<notin> set (url_base address)"
  unfolding url_base_conv by (auto dest: set_takeWhileD)

lemma url_format_search:
  assumes "CHR ''#'' \<notin> set s"
  shows "url_format (url_parse address \<lparr> u_search := Some (CHR ''?'' # s) \<rparr>)
           = url_base address @ CHR ''?'' # s @ url_fragment address"
proof -
  have "url_format (url_parse address \<lparr> u_search := Some (CHR ''?'' # s) \<rparr>)
          = url_base address @ replace_hash (CHR ''?'' # s) @
            (if url_fragment address \<noteq> [] \<and> hd (url_fragment address) \<noteq> CHR ''#''
             then CHR ''#'' # url_fragment address else url_fragment address)"
    by (simp add: url_format_def Let_def url_base_def url_fragment_def)
  also have "(if url_fragment address \<noteq> [] \<and> hd (url_fragment address) \<noteq> CHR ''#''
         then CHR ''#'' # url_fragment address else url_fragment address) = url_fragment address"
    using url_fragment_shape [of address] by auto
  also have "replace_hash (CHR ''?'' # s) = CHR ''?'' # s"
    using assms by (intro replace_hash_id) simp
  finally show ?thesis by simp
qed

text \<open>The result of updateUrl, as a function of the pairs the address carries.\<close>

lemma updateUrl_pairs:
  "updateUrl address offset =
     url_base address @ CHR ''?'' #
       join_with (CHR ''&'')
         (map pair_field (grouped (query_pairs (url_query address))
                          @ default_pairs (query_pairs (url_query address)) offset))
     @ url_fragment address"
proof -
  define P where "P = query_pairs (url_query address)"
  define obj where "obj = qs_parse (u_query (url_parse address))"
  have obj: "obj = parse_pairs P"
    by (simp add: obj_def P_def url_query_def qs_parse_conv)
  define qs1 where "qs1 = (if \<not> hasOwnProperty obj ''offset'' then set_prop obj ''offset'' offset else obj)"
  define qs2 where "qs2 = (if \<not> hasOwnProperty qs1 ''total'' then set_prop qs1 ''total'' (JBool True) else qs1)"
  define qs3 where "qs3 = (if \<not> hasOwnProperty qs2 ''limit'' then set_prop qs2 ''limit'' (JNum 100) else qs2)"
  have "qs_pairs qs3 = grouped P @ default_pairs P offset"
    unfolding qs3_def qs2_def qs1_def qs_pairs_with_defaults
    by (simp add: obj qs_pairs_parse_pairs fst_set_parse_pairs default_pairs_def)
  then have s: "qs_stringify qs3 = join_with (CHR ''&'')
         (map pair_field (grouped P @ default_pairs P offset))"
    by (simp add: qs_stringify_pairs)
  have "updateUrl address offset
          = url_format (url_parse address \<lparr> u_search := Some (CHR ''?'' # qs_stringify qs3) \<rparr>)"
    by (simp add: updateUrl_def Let_def qs3_def qs2_def qs1_def obj_def)
  also have "\<dots> = url_base address @ CHR ''?'' # qs_stringify qs3 @ url_fragment address"
    unfolding s by (rule url_format_search) (rule join_fields_no_hash)
  finally show ?thesis by (simp add: s P_def)
qed

section \<open>Parsing the result again\<close>

lemma takeWhile_hash_result:
  assumes "CHR ''#'' \<notin> set s" and "f = [] \<or> hd f = CHR ''#''"
  shows "takeWhile (\<lambda>c. c \<noteq> CHR ''#'') (s @ f) = s"
    and "dropWhile (\<lambda>c. c \<noteq> CHR ''#'') (s @ f) = f"
proof -
  from assms(2) consider "f = []" | f' where "f = CHR ''#'' # f'"
    by (cases f) auto
  then have "takeWhile (\<lambda>c. c \<noteq> CHR ''#'') (s @ f) = s \<and>
             dropWhile (\<lambda>c. c \<noteq> CHR ''#'') (s @ f) = f"
  proof cases
    case 1
    then show ?thesis using assms(1) by (simp add: takeWhile_no_sep dropWhile_no_sep)
  next
    case 2
    then show ?thesis using assms(1) by (simp add: takeWhile_sep dropWhile_sep)
  qed
  then show "takeWhile (\<lambda>c. c \<noteq> CHR ''#'') (s @ f) = s"
    and "dropWhile (\<lambda>c. c \<noteq> CHR ''#'') (s @ f) = f" by simp_all
qed

lemma url_parse_result:
  assumes "CHR ''?'' \<notin> set b" "CHR ''#'' \<notin> set b" "CHR ''#'' \<notin> set s"
    and "f = [] \<or> hd f = CHR ''#''"
  shows "url_base (b @ CHR ''?'' # s @ f) = b"
    and "url_query (b @ CHR ''?'' # s @ f) = Some s"
    and "url_fragment (b @ CHR ''?'' # s @ f) = f"
proof -
  have h: "CHR ''#'' \<notin> set (b @ CHR ''?'' # s)" using assms by simp
  have t: "takeWhile (\<lambda>c. c \<noteq> CHR ''#'') (b @ CHR ''?'' # s @ f) = b @ CHR ''?'' # s"
    and d: "dropWhile (\<lambda>c. c \<noteq> CHR ''#'') (b @ CHR ''?'' # s @ f) = f"
    using takeWhile_hash_result [OF h assms(4)] by simp_all
  show "url_base (b @ CHR ''?'' # s @ f) = b"
    by (simp add: url_base_conv t takeWhile_sep assms(1))
  show "url_query (b @ CHR ''?'' # s @ f) = Some s"
    by (simp add: url_query_def url_parse_def Let_def t dropWhile_sep assms(1))
  show "url_fragment (b @ CHR ''?'' # s @ f) = f"
    by (simp add: url_fragment_conv d)
qed

lemma updateUrl_parts:
  "url_base (updateUrl address offset) = url_base address"
  "url_query (updateUrl address offset) =
     Some (join_with (CHR ''&'')
         (map pair_field (grouped (query_pairs (url_query address))
                          @ default_pairs (query_pairs (url_query address)) offset)))"
  "url_fragment (updateUrl address offset) = url_fragment address"
  unfolding updateUrl_pairs
  by (rule url_parse_result [OF url_base_chars(1) url_base_chars(2) join_fields_no_hash
        url_fragment_shape])+


section \<open>Grouping\<close>

lemma key_order_idem: "key_order (key_order ks) = key_order ks"
proof -
  have "filter is_index (key_order ks) = sort_key index_val (filter is_index ks)"
    by (simp add: key_order_def filter_sort)
  moreover have "filter (\<lambda>k. \<not> is_index k) (key_order ks) = filter (\<lambda>k. \<not> is_index k) ks"
    by (simp add: key_order_def filter_sort)
  moreover have "sort_key index_val (sort_key index_val (filter is_index ks))
                   = sort_key index_val (filter is_index ks)"
    by (rule sort_key_id_if_sorted) simp
  ultimately show ?thesis by (simp add: key_order_def)
qed

lemma key_order_append:
  "\<forall>k \<in> set xs. \<not> is_index k \<Longrightarrow> key_order (ks @ xs) = key_order ks @ xs"
  by (simp add: key_order_def filter_empty_conv filter_id_conv)

lemma concat_map_single:
  "distinct ks \<Longrightarrow>
   concat (map (\<lambda>k'. if k' = k then xs else []) ks) = (if k \<in> set ks then xs else [])"
  by (induction ks) auto

lemma filter_grouped: "filter (\<lambda>p. fst p = k) (grouped ps) = filter (\<lambda>p. fst p = k) ps"
proof -
  have "filter (\<lambda>p. fst p = k) (grouped ps)
          = concat (map (\<lambda>k'. filter (\<lambda>p. fst p = k) (filter (\<lambda>p. fst p = k') ps))
                        (key_order (first_keys ps)))"
    by (simp add: grouped_def filter_concat comp_def)
  also have "(\<lambda>k'. filter (\<lambda>p. fst p = k) (filter (\<lambda>p. fst p = k') ps))
           = (\<lambda>k'. if k' = k then filter (\<lambda>p. fst p = k) ps else [])"
    by (auto simp: fun_eq_iff filter_empty_conv intro: filter_cong)
  also have "concat (map \<dots> (key_order (first_keys ps)))
           = (if k \<in> fst ` set ps then filter (\<lambda>p. fst p = k) ps else [])"
    by (simp add: concat_map_single)
  also have "\<dots> = filter (\<lambda>p. fst p = k) ps"
  proof (cases "k \<in> fst ` set ps")
    case True
    then show ?thesis by simp
  next
    case False
    then have "filter (\<lambda>p. fst p = k) ps = []"
      by (auto simp: filter_empty_conv)
    with False show ?thesis by simp
  qed
  finally show ?thesis .
qed

lemma set_grouped [simp]: "set (grouped ps) = set ps"
proof -
  have "p \<in> set (grouped ps) \<longleftrightarrow> p \<in> set ps" for p
  proof -
    have "set (filter (\<lambda>q. fst q = fst p) (grouped ps)) = set (filter (\<lambda>q. fst q = fst p) ps)"
      by (simp only: filter_grouped)
    then have "{q \<in> set (grouped ps). fst q = fst p} = {q \<in> set ps. fst q = fst p}"
      by simp
    then show ?thesis by blast
  qed
  then show ?thesis by blast
qed

lemma remdups_replicate_append:
  "0 < n \<Longrightarrow> k \<notin> set ys \<Longrightarrow> remdups (replicate n k @ ys) = k # remdups ys"
proof (induction n)
  case 0
  then show ?case by simp
next
  case (Suc n)
  then show ?case by (cases n) auto
qed

lemma first_keys_append_group:
  assumes "B \<noteq> []" and "\<forall>p \<in> set B. fst p = k" and "k \<notin> fst ` set A"
  shows "first_keys (A @ B) = first_keys A @ [k]"
proof -
  have "map fst B = replicate (length B) k"
    using assms(2) by (induction B) auto
  then have "rev (map fst B) = replicate (length B) k"
    by simp
  then show ?thesis
    using assms(1,3) by (simp add: first_keys_def remdups_replicate_append)
qed

lemma first_keys_groups:
  assumes "distinct ks" and "\<forall>k \<in> set ks. G k \<noteq> [] \<and> (\<forall>p \<in> set (G k). fst p = k)"
  shows "first_keys (concat (map G ks)) = ks"
  using assms
proof (induction ks rule: rev_induct)
  case Nil
  show ?case by simp
next
  case (snoc k ks)
  have "k \<notin> fst ` set (concat (map G ks))"
    using snoc.prems by fastforce
  moreover have "G k \<noteq> []" "\<forall>p \<in> set (G k). fst p = k"
    using snoc.prems by simp_all
  ultimately have "first_keys (concat (map G ks) @ G k) = first_keys (concat (map G ks)) @ [k]"
    by (intro first_keys_append_group)
  with snoc show ?case by simp
qed

lemma first_keys_grouped: "first_keys (grouped ps) = key_order (first_keys ps)"
  unfolding grouped_def
  by (rule first_keys_groups) (auto simp: filter_empty_conv)

lemma grouped_idem: "grouped (grouped ps) = grouped ps"
proof -
  have "grouped (grouped ps)
          = concat (map (\<lambda>k. filter (\<lambda>p. fst p = k) (grouped ps))
                        (key_order (first_keys (grouped ps))))"
    by (simp add: grouped_def)
  also have "\<dots> = concat (map (\<lambda>k. filter (\<lambda>p. fst p = k) ps) (key_order (first_keys ps)))"
    by (simp add: filter_grouped first_keys_grouped key_order_idem)
  finally show ?thesis by (simp add: grouped_def)
qed

lemma length_filter_disjoint:
  "(\<And>x. \<not> (P x \<and> Q x)) \<Longrightarrow>
   length (filter P xs) + length (filter Q xs) = length (filter (\<lambda>x. P x \<or> Q x) xs)"
  by (induction xs) auto

lemma length_groups:
  "distinct ks \<Longrightarrow>
   length (concat (map (\<lambda>k. filter (\<lambda>p. fst p = k) ps) ks))
     = length (filter (\<lambda>p. fst p \<in> set ks) ps)"
proof (induction ks)
  case Nil
  show ?case by simp
next
  case (Cons k ks)
  have "length (filter (\<lambda>p. fst p = k) ps) + length (filter (\<lambda>p. fst p \<in> set ks) ps)
          = length (filter (\<lambda>p. fst p = k \<or> fst p \<in> set ks) ps)"
    using Cons.prems by (intro length_filter_disjoint) auto
  with Cons show ?case by simp
qed

lemma length_grouped [simp]: "length (grouped ps) = length ps"
  by (simp add: grouped_def length_groups)

text \<open>Pairs with new, distinct keys that are no array indices stay at the end.\<close>

lemma first_keys_append_new:
  "distinct (map fst X) \<Longrightarrow> fst ` set X \<inter> fst ` set ps = {} \<Longrightarrow>
   first_keys (ps @ X) = first_keys ps @ map fst X"
proof (induction X rule: rev_induct)
  case Nil
  show ?case by simp
next
  case (snoc x X)
  then have "first_keys (ps @ X) = first_keys ps @ map fst X" by auto
  moreover have "fst x \<notin> fst ` set (ps @ X)" using snoc.prems by auto
  ultimately show ?case
    using first_keys_snoc [of "ps @ X" x] by simp
qed

lemma concat_groups_distinct:
  "distinct (map fst X) \<Longrightarrow> concat (map (\<lambda>k. filter (\<lambda>p. fst p = k) X) (map fst X)) = X"
proof (induction X)
  case Nil
  show ?case by simp
next
  case (Cons x X)
  from Cons.prems have d: "distinct (map fst X)" and n: "fst x \<notin> fst ` set X" by simp_all
  from n have "\<forall>p \<in> set X. fst p \<noteq> fst x" by (metis imageI)
  then have a: "filter (\<lambda>p. fst p = fst x) (x # X) = [x]"
    by (simp add: filter_empty_conv)
  have e: "map (\<lambda>k. filter (\<lambda>p. fst p = k) (x # X)) (map fst X)
          = map (\<lambda>k. filter (\<lambda>p. fst p = k) X) (map fst X)"
    using n by (intro map_cong) auto
  have "concat (map (\<lambda>k. filter (\<lambda>p. fst p = k) (x # X)) (map fst (x # X)))
          = filter (\<lambda>p. fst p = fst x) (x # X)
            @ concat (map (\<lambda>k. filter (\<lambda>p. fst p = k) (x # X)) (map fst X))"
    by simp
  also have "\<dots> = [x] @ concat (map (\<lambda>k. filter (\<lambda>p. fst p = k) X) (map fst X))"
    by (simp only: a e)
  also have "\<dots> = x # X"
    by (simp only: Cons.IH [OF d]) simp
  finally show ?case .
qed

lemma grouped_append_new:
  assumes "distinct (map fst X)" and "fst ` set X \<inter> fst ` set ps = {}"
    and "\<forall>p \<in> set X. \<not> is_index (fst p)"
  shows "grouped (ps @ X) = grouped ps @ X"
proof -
  have ko: "key_order (first_keys (ps @ X)) = key_order (first_keys ps) @ map fst X"
    using assms by (simp add: first_keys_append_new key_order_append)
  have old: "map (\<lambda>k. filter (\<lambda>p. fst p = k) (ps @ X)) (key_order (first_keys ps))
               = map (\<lambda>k. filter (\<lambda>p. fst p = k) ps) (key_order (first_keys ps))"
  proof (rule map_cong [OF refl])
    fix k assume "k \<in> set (key_order (first_keys ps))"
    then have "k \<in> fst ` set ps" by simp
    with assms(2) have "filter (\<lambda>p. fst p = k) X = []"
      by (auto simp: filter_empty_conv)
    then show "filter (\<lambda>p. fst p = k) (ps @ X) = filter (\<lambda>p. fst p = k) ps" by simp
  qed
  have new: "map (\<lambda>k. filter (\<lambda>p. fst p = k) (ps @ X)) (map fst X)
               = map (\<lambda>k. filter (\<lambda>p. fst p = k) X) (map fst X)"
  proof (rule map_cong [OF refl])
    fix k assume "k \<in> set (map fst X)"
    with assms(2) have "filter (\<lambda>p. fst p = k) ps = []"
      by (auto simp: filter_empty_conv)
    then show "filter (\<lambda>p. fst p = k) (ps @ X) = filter (\<lambda>p. fst p = k) X" by simp
  qed
  show ?thesis
    unfolding grouped_def ko
    by (simp only: map_append concat_append old new concat_groups_distinct [OF assms(1)])
qed

lemma grouped_distinct:
  assumes "distinct (map fst ps)" and "\<forall>p \<in> set ps. \<not> is_index (fst p)"
  shows "grouped ps = ps"
  using grouped_append_new [of ps "[]"] assms by (simp add: grouped_def key_order_def)


section \<open>Applying updateUrl to its own result\<close>

lemma length_query_pairs: "length (query_pairs q) \<le> maxKeys"
proof (cases q)
  case None
  then show ?thesis by (simp add: query_pairs_def)
next
  case (Some qs)
  have "length (filter (\<lambda>seg. seg \<noteq> []) (take maxKeys (split_on (CHR ''&'') qs)))
          \<le> length (take maxKeys (split_on (CHR ''&'') qs))"
    by (rule length_filter_le)
  also have "\<dots> \<le> maxKeys" by simp
  finally show ?thesis using Some by (simp add: query_pairs_def)
qed

lemma default_pairs_keys:
  "fst ` set (default_pairs ps offset) \<inter> fst ` set ps = {}"
  "\<forall>p \<in> set (default_pairs ps offset). \<not> is_index (fst p)"
proof -
  show "fst ` set (default_pairs ps offset) \<inter> fst ` set ps = {}"
    by (force simp: default_pairs_def)
  show "\<forall>p \<in> set (default_pairs ps offset). \<not> is_index (fst p)"
    by (auto simp: default_pairs_def)
qed

lemma default_pairs_distinct:
  "prop_values offset = [x] \<Longrightarrow> distinct (map fst (default_pairs ps offset))"
  by (simp add: default_pairs_def)

lemma default_pairs_not_Nil: "grouped ps @ default_pairs ps offset \<noteq> []"
proof (cases "''limit'' \<in> fst ` set ps")
  case True
  then have "ps \<noteq> []" by auto
  then have "grouped ps \<noteq> []"
    using length_grouped [of ps] by (metis length_0_conv)
  then show ?thesis by simp
next
  case False
  then show ?thesis by (simp add: default_pairs_def)
qed

lemma take_defaults_resume:
  assumes "prop_values offset = [x]"
  shows "take m (default_pairs ps offset)
           @ default_pairs (grouped ps @ take m (default_pairs ps offset)) offset
         = default_pairs ps offset"
proof -
  consider "m = 0" | "m = 1" | "m = 2" | "3 \<le> m" by linarith
  then show ?thesis
  proof cases
    case 1
    then show ?thesis by (simp add: default_pairs_def image_Un)
  next
    case 2
    then show ?thesis by (auto simp: default_pairs_def image_Un assms)
  next
    case 3
    then have m: "m = Suc (Suc 0)" by simp
    show ?thesis unfolding m by (auto simp: default_pairs_def image_Un assms)
  next
    case 4
    have "length (default_pairs ps offset) \<le> 3"
      by (simp add: default_pairs_def assms)
    with 4 have t: "take m (default_pairs ps offset) = default_pairs ps offset" by simp
    show ?thesis unfolding t by (auto simp: default_pairs_def image_Un assms)
  qed
qed

lemma result_pairs_stable:
  assumes "length ps \<le> maxKeys" and "prop_values offset = [x]"
  defines "R \<equiv> grouped ps @ default_pairs ps offset"
  shows "grouped (take maxKeys R) @ default_pairs (take maxKeys R) offset = R"
proof -
  define D' where "D' = take (maxKeys - length ps) (default_pairs ps offset)"
  have t: "take maxKeys R = grouped ps @ D'"
    using assms(1) by (simp add: R_def D'_def)
  have sub: "set D' \<subseteq> set (default_pairs ps offset)"
    unfolding D'_def by (rule set_take_subset)
  have d: "distinct (map fst D')"
    unfolding D'_def using default_pairs_distinct [OF assms(2), of ps]
    by (simp add: take_map [symmetric] distinct_take)
  have f: "fst ` set D' \<inter> fst ` set (grouped ps) = {}"
    using sub default_pairs_keys(1) [of ps offset] by auto
  have i: "\<forall>p \<in> set D'. \<not> is_index (fst p)"
    using sub default_pairs_keys(2) [of ps offset] by auto
  have "grouped (grouped ps @ D') = grouped (grouped ps) @ D'"
    by (rule grouped_append_new [OF d f i])
  then have g: "grouped (grouped ps @ D') = grouped ps @ D'"
    by (simp add: grouped_idem)
  have r: "D' @ default_pairs (grouped ps @ D') offset = default_pairs ps offset"
    unfolding D'_def by (rule take_defaults_resume [OF assms(2)])
  have "grouped (take maxKeys R) @ default_pairs (take maxKeys R) offset
          = (grouped ps @ D') @ default_pairs (grouped ps @ D') offset"
    by (simp only: t g)
  also have "\<dots> = grouped ps @ (D' @ default_pairs (grouped ps @ D') offset)"
    by simp
  also have "\<dots> = R"
    by (simp only: r R_def)
  finally show ?thesis .
qed

lemma query_pairs_result:
  "query_pairs (url_query (updateUrl address offset)) =
     take maxKeys (grouped (query_pairs (url_query address))
                   @ default_pairs (query_pairs (url_query address)) offset)"
  unfolding updateUrl_parts(2)
  by (rule query_pairs_join) (rule default_pairs_not_Nil)

lemma prop_values_single: "\<not> is_JArr v \<Longrightarrow> prop_values v = [stringifyPrimitive v]"
  by (cases v) simp_all

lemma updateUrl_twice:
  assumes "\<not> is_JArr offset"
  shows "updateUrl (updateUrl address offset) offset = updateUrl address offset"
proof -
  define P where "P = query_pairs (url_query address)"
  have "grouped (query_pairs (url_query (updateUrl address offset)))
          @ default_pairs (query_pairs (url_query (updateUrl address offset))) offset
        = grouped P @ default_pairs P offset"
    unfolding query_pairs_result P_def
    by (rule result_pairs_stable [OF length_query_pairs prop_values_single [OF assms]])
  then show ?thesis
    by (simp only: updateUrl_pairs [of "updateUrl address offset"] updateUrl_parts(1,3) P_def)
       (simp only: updateUrl_pairs [symmetric])
qed

lemma updateUrl_keeps_present:
  assumes "k \<in> fst ` set (query_pairs (url_query address))"
  shows "filter (\<lambda>p. fst p = k) (query_pairs (url_query (updateUrl address offset)))
           = filter (\<lambda>p. fst p = k) (query_pairs (url_query address))"
proof -
  define P where "P = query_pairs (url_query address)"
  define D' where "D' = take (maxKeys - length P) (default_pairs P offset)"
  have "query_pairs (url_query (updateUrl address offset)) = grouped P @ D'"
    unfolding query_pairs_result P_def [symmetric] D'_def
    using length_query_pairs [of "url_query address"] by (simp add: P_def)
  moreover have "filter (\<lambda>p. fst p = k) D' = []"
  proof -
    have "set D' \<subseteq> set (default_pairs P offset)"
      unfolding D'_def by (rule set_take_subset)
    with default_pairs_keys(1) [of P offset] assms
    have "\<forall>p \<in> set D'. fst p \<noteq> k" unfolding P_def by blast
    then show ?thesis by (simp add: filter_empty_conv)
  qed
  ultimately show ?thesis
    by (simp add: filter_grouped P_def)
qed


section \<open>The claims about updateUrl\<close>








end
